theory Spec2Isabelle
  imports Complex_Main
begin

section \<open>Python values and exceptions\<close>

text \<open>
  The module \<open>dist.py\<close> offers two command handlers, \<open>show_dist\<close> and
  \<open>show_biv_dist\<close>. Each one builds an \<open>argparse.ArgumentParser\<close>, parses a list
  of tokens, checks the output file name with \<open>utils.check_valid_png\<close>, builds a
  seaborn figure, saves it and displays the saved file.

  Strings are byte strings (\<open>string\<close>). An attribute of the parsed namespace is
  \<open>None\<close>, a string or a list of strings.
\<close>

datatype pyval = PNone | PStr string | PList "string list"

text \<open>
  The messages of \<open>ArgumentParser.error\<close>. Each is printed after the usage line and
  ends the call with \<open>SystemExit(2)\<close>.
\<close>

datatype usage_error =
    InvalidChoice string pyval
  | IgnoredExplicitArgument string string
  | ExpectedArguments string
  | AmbiguousOption string "string list"
  | RequiredArguments "string list"
  | UnrecognizedArguments "string list"

text \<open>
  The exceptions that can leave a handler. \<open>UsageError\<close> is the \<open>SystemExit(2)\<close>
  of \<open>ArgumentParser.error\<close>, \<open>HelpExit\<close> the \<open>SystemExit(0)\<close> of the help action.
  \<open>LibraryError\<close> stands for an exception raised inside matplotlib or PIL whose class
  is not modelled.
\<close>

datatype exn =
    UsageError usage_error
  | HelpExit
  | TypeError
  | ValueError
  | KeyError
  | IndexError
  | FileNotFoundError
  | LibraryError

section \<open>The argument parser (argparse of Python 3.11)\<close>

subsection \<open>Actions\<close>

text \<open>
  \<open>nargs=None\<close> is \<open>NargsNone\<close>, \<open>nargs='?'\<close> is \<open>OPTIONAL\<close>, \<open>nargs='*'\<close> is
  \<open>ZERO_OR_MORE\<close>; the help action has \<open>nargs=0\<close>.
\<close>

datatype nargs = NargsNone | OPTIONAL | ZERO_OR_MORE | NargsInt nat

datatype action_class = StoreAction | HelpAction

record action =
  option_strings :: "string list"
  dest :: string
  nargs :: nargs
  const :: pyval
  default_value :: pyval
  choices :: "string list option"
  required :: bool
  action_class :: action_class

text \<open>
  \<open>add_argument\<close> with a name that does not start with \<open>-\<close> makes a positional
  action: it is required unless \<open>nargs\<close> is \<open>'?'\<close> or \<open>'*'\<close>. With flags it makes an
  optional action, not required. The action is \<open>store\<close>, \<open>const\<close> is \<open>None\<close>.
\<close>

definition add_positional :: "string \<Rightarrow> nargs \<Rightarrow> pyval \<Rightarrow> string list option \<Rightarrow> action" where
  "add_positional name n d cs =
     \<lparr> option_strings = [], dest = name, nargs = n, const = PNone, default_value = d,
       choices = cs, required = (n \<noteq> OPTIONAL \<and> n \<noteq> ZERO_OR_MORE),
       action_class = StoreAction \<rparr>"

definition add_optional :: "string list \<Rightarrow> string \<Rightarrow> nargs \<Rightarrow> pyval \<Rightarrow> string list option \<Rightarrow> action" where
  "add_optional flags name n d cs =
     \<lparr> option_strings = flags, dest = name, nargs = n, const = PNone, default_value = d,
       choices = cs, required = False, action_class = StoreAction \<rparr>"

text \<open>\<open>ArgumentParser()\<close> has \<open>add_help=True\<close>: the first action is \<open>-h/--help\<close>.\<close>

definition help_action :: action where
  "help_action =
     \<lparr> option_strings = [''-h'', ''--help''], dest = ''help'', nargs = NargsInt 0,
       const = PNone, default_value = PNone, choices = None, required = False,
       action_class = HelpAction \<rparr>"

subsection \<open>The patterns of \<open>_get_nargs_pattern\<close> and \<open>re.match\<close>\<close>

text \<open>
  The argument strings are summarised as a pattern string over \<open>A\<close> (argument), \<open>O\<close>
  (option) and \<open>-\<close> (the separator \<open>--\<close>). Each action has a regular expression over
  that alphabet. The expressions argparse builds are sequences of a character class
  with a quantifier, so that is the grammar modelled; \<open>match_atoms\<close> lists the lengths
  of all matches of a group at the start of a string in the order in which a
  backtracking matcher with greedy quantifiers finds them.
\<close>

datatype quant = Once | ZeroOrOne | ZeroOrMore

type_synonym atom = "(char list \<times> quant)"

fun match_atoms :: "atom list \<Rightarrow> string \<Rightarrow> nat list" where
  "match_atoms [] s = [0]"
| "match_atoms ((cs, Once) # as) [] = []"
| "match_atoms ((cs, Once) # as) (c # s) =
     (if c \<in> set cs then map Suc (match_atoms as s) else [])"
| "match_atoms ((cs, ZeroOrOne) # as) [] = match_atoms as []"
| "match_atoms ((cs, ZeroOrOne) # as) (c # s) =
     (if c \<in> set cs then map Suc (match_atoms as s) else []) @ match_atoms as (c # s)"
| "match_atoms ((cs, ZeroOrMore) # as) [] = match_atoms as []"
| "match_atoms ((cs, ZeroOrMore) # as) (c # s) =
     (if c \<in> set cs then map Suc (match_atoms ((cs, ZeroOrMore) # as) s) else [])
     @ match_atoms as (c # s)"

text \<open>All matches of a sequence of groups, as the list of the groups' lengths.\<close>

fun match_groups :: "atom list list \<Rightarrow> string \<Rightarrow> nat list list" where
  "match_groups [] s = [[]]"
| "match_groups (g # gs) s =
     concat (map (\<lambda>n. map ((#) n) (match_groups gs (drop n s))) (match_atoms g s))"

definition dash_star :: atom where
  "dash_star = (''-'', ZeroOrMore)"

fun int_pattern :: "nat \<Rightarrow> atom list" where
  "int_pattern 0 = []"
| "int_pattern (Suc 0) = [(''A'', Once)]"
| "int_pattern (Suc (Suc n)) = (''A'', Once) # dash_star # int_pattern (Suc n)"

definition get_nargs_pattern :: "action \<Rightarrow> atom list" where
  "get_nargs_pattern a =
     (let nargs_pattern =
        (case nargs a of
           NargsNone \<Rightarrow> [dash_star, (''A'', Once), dash_star]
         | OPTIONAL \<Rightarrow> [dash_star, (''A'', ZeroOrOne), dash_star]
         | ZERO_OR_MORE \<Rightarrow> [dash_star, (''A-'', ZeroOrMore)]
         | NargsInt n \<Rightarrow> [dash_star] @ int_pattern n @ [dash_star])
      in if option_strings a \<noteq> []
         then map (\<lambda>(cs, q). (filter (\<lambda>c. c \<noteq> CHR ''-'') cs, q))
                (filter (\<lambda>p. p \<noteq> dash_star) nargs_pattern)
         else nargs_pattern)"

definition match_argument :: "action \<Rightarrow> string \<Rightarrow> exn + nat" where
  "match_argument a arg_strings_pattern =
     (case match_atoms (get_nargs_pattern a) arg_strings_pattern of
        [] \<Rightarrow> Inl (UsageError (ExpectedArguments (dest a)))
      | n # _ \<Rightarrow> Inr n)"

fun match_partial_from :: "nat \<Rightarrow> action list \<Rightarrow> string \<Rightarrow> nat list" where
  "match_partial_from 0 actions p = []"
| "match_partial_from (Suc i) actions p =
     (case match_groups (map get_nargs_pattern (take (Suc i) actions)) p of
        [] \<Rightarrow> match_partial_from i actions p
      | r # _ \<Rightarrow> r)"

definition match_arguments_partial :: "action list \<Rightarrow> string \<Rightarrow> nat list" where
  "match_arguments_partial actions p = match_partial_from (length actions) actions p"

subsection \<open>Classifying one argument string: \<open>_parse_optional\<close>\<close>

text \<open>
  An option tuple is \<open>(action, option_string, sep, explicit_arg)\<close>; the action is
  \<open>None\<close> for a string that looks like an option the parser does not have.
\<close>

type_synonym option_tuple = "action option \<times> string \<times> string option \<times> string option"

definition option_string_actions :: "action list \<Rightarrow> (string \<times> action) list" where
  "option_string_actions actions =
     concat (map (\<lambda>a. map (\<lambda>s. (s, a)) (option_strings a)) actions)"

definition partition :: "char \<Rightarrow> string \<Rightarrow> string \<times> string \<times> string" where
  "partition c s =
     (case dropWhile (\<lambda>x. x \<noteq> c) s of
        [] \<Rightarrow> (s, [], [])
      | _ # rest \<Rightarrow> (takeWhile (\<lambda>x. x \<noteq> c) s, [c], rest))"

definition startswith :: "string \<Rightarrow> string \<Rightarrow> bool" where
  "startswith s p = (take (length p) s = p)"

definition get_option_tuples :: "action list \<Rightarrow> string \<Rightarrow> option_tuple list" where
  "get_option_tuples actions option_string =
     (case option_string of
        c0 # c1 # _ \<Rightarrow>
          if c0 = CHR ''-'' \<and> c1 = CHR ''-'' then
            (case partition CHR ''='' option_string of
               (option_prefix, sep, explicit_arg) \<Rightarrow>
                 concat (map (\<lambda>(os, a).
                     if startswith os option_prefix
                     then [(Some a, os, (if sep = [] then None else Some sep),
                            (if sep = [] then None else Some explicit_arg))]
                     else [])
                   (option_string_actions actions)))
          else if c0 = CHR ''-'' then
            concat (map (\<lambda>(os, a).
                if os = take 2 option_string
                then [(Some a, os, Some [], Some (drop 2 option_string))]
                else if startswith os option_string
                then [(Some a, os, None, None)]
                else [])
              (option_string_actions actions))
          else []
      | _ \<Rightarrow> [])"

text \<open>
  \<open>_negative_number_matcher\<close> is \<open>'^-\d+$|^-\d*\.\d+$'\<close>; \<open>$\<close> also matches before
  a final newline. Digits are the ASCII digits.
\<close>

definition is_digit :: "char \<Rightarrow> bool" where
  "is_digit c = (c \<in> set ''0123456789'')"

definition negative_number_full :: "string \<Rightarrow> bool" where
  "negative_number_full s =
     (case s of
        [] \<Rightarrow> False
      | c # r \<Rightarrow> c = CHR ''-'' \<and>
          ((r \<noteq> [] \<and> list_all is_digit r) \<or>
           (case dropWhile is_digit r of
              [] \<Rightarrow> False
            | d # f \<Rightarrow> d = CHR ''.'' \<and> f \<noteq> [] \<and> list_all is_digit f)))"

definition negative_number_matcher :: "string \<Rightarrow> bool" where
  "negative_number_matcher s =
     (negative_number_full s \<or>
      (s \<noteq> [] \<and> last s = CHR 0x0A \<and> negative_number_full (butlast s)))"

definition parse_optional :: "action list \<Rightarrow> string \<Rightarrow> exn + option_tuple option" where
  "parse_optional actions arg_string =
     (if arg_string = [] then Inr None
      else if hd arg_string \<noteq> CHR ''-'' then Inr None
      else case map_of (option_string_actions actions) arg_string of
        Some a \<Rightarrow> Inr (Some (Some a, arg_string, None, None))
      | None \<Rightarrow>
        if length arg_string = 1 then Inr None
        else case partition CHR ''='' arg_string of
          (option_string, sep, explicit_arg) \<Rightarrow>
            (case (if sep \<noteq> [] then map_of (option_string_actions actions) option_string
                   else None) of
               Some a \<Rightarrow> Inr (Some (Some a, option_string, Some sep, Some explicit_arg))
             | None \<Rightarrow>
               (case get_option_tuples actions arg_string of
                  t1 # t2 # ts \<Rightarrow>
                    Inl (UsageError (AmbiguousOption arg_string
                           (map (\<lambda>(a, os, sep, ea). os) (t1 # t2 # ts))))
                | [t] \<Rightarrow> Inr (Some t)
                | [] \<Rightarrow>
                    if negative_number_matcher arg_string then Inr None
                    else if CHR '' '' \<in> set arg_string then Inr None
                    else Inr (Some (None, arg_string, None, None)))))"

text \<open>
  The first loop of \<open>_parse_known_args\<close>: the option tuple of every index
  (\<open>option_string_indices\<close>, \<open>None\<close> where the string is not an option) and the
  pattern string. Everything after \<open>--\<close> is an argument.
\<close>

fun classify :: "action list \<Rightarrow> string list \<Rightarrow> exn + (option_tuple option list \<times> string)" where
  "classify actions [] = Inr ([], [])"
| "classify actions (arg_string # rest) =
     (if arg_string = ''--''
      then Inr (None # map (\<lambda>_. None) rest, CHR ''-'' # map (\<lambda>_. CHR ''A'') rest)
      else case parse_optional actions arg_string of
        Inl e \<Rightarrow> Inl e
      | Inr option_tuple \<Rightarrow>
        (case classify actions rest of
           Inl e \<Rightarrow> Inl e
         | Inr (indices, pattern) \<Rightarrow>
             Inr (option_tuple # indices,
                  (if option_tuple = None then CHR ''A'' else CHR ''O'') # pattern)))"

subsection \<open>Converting and checking values: \<open>_get_values\<close>\<close>

text \<open>
  No argument has a \<open>type\<close>, so \<open>_get_value\<close> is the identity. \<open>_check_value\<close>
  raises the invalid-choice error when the action has choices and the value is not
  among them.
\<close>

definition check_value :: "action \<Rightarrow> pyval \<Rightarrow> exn + unit" where
  "check_value a v =
     (case choices a of
        None \<Rightarrow> Inr ()
      | Some cs \<Rightarrow>
          (case v of
             PStr s \<Rightarrow> if s \<in> set cs then Inr ()
                       else Inl (UsageError (InvalidChoice (dest a) v))
           | _ \<Rightarrow> Inl (UsageError (InvalidChoice (dest a) v))))"

fun check_values :: "action \<Rightarrow> string list \<Rightarrow> exn + unit" where
  "check_values a [] = Inr ()"
| "check_values a (v # vs) =
     (case check_value a (PStr v) of Inl e \<Rightarrow> Inl e | Inr _ \<Rightarrow> check_values a vs)"

definition get_values :: "action \<Rightarrow> string list \<Rightarrow> exn + pyval" where
  "get_values a argument_strings =
     (let arg_strings = (if option_strings a = [] then remove1 ''--'' argument_strings
                         else argument_strings)
      in if arg_strings = [] \<and> nargs a = OPTIONAL then
           (let v = (if option_strings a \<noteq> [] then const a else default_value a)
            in case v of
                 PStr s \<Rightarrow> (case check_value a v of Inl e \<Rightarrow> Inl e | Inr _ \<Rightarrow> Inr v)
               | _ \<Rightarrow> Inr v)
         else if arg_strings = [] \<and> nargs a = ZERO_OR_MORE \<and> option_strings a = [] then
           (let v = (if default_value a \<noteq> PNone then default_value a else PList arg_strings)
            in case check_value a v of Inl e \<Rightarrow> Inl e | Inr _ \<Rightarrow> Inr v)
         else if length arg_strings = 1 \<and> (nargs a = NargsNone \<or> nargs a = OPTIONAL) then
           (let v = PStr (hd arg_strings)
            in case check_value a v of Inl e \<Rightarrow> Inl e | Inr _ \<Rightarrow> Inr v)
         else
           (case check_values a arg_strings of
              Inl e \<Rightarrow> Inl e
            | Inr _ \<Rightarrow> Inr (PList arg_strings)))"

subsection \<open>The parsing loop of \<open>_parse_known_args\<close>\<close>

record parse_state =
  namespace :: "string \<rightharpoonup> pyval"
  seen_actions :: "action list"
  positionals :: "action list"
  extras :: "string list"

text \<open>
  \<open>take_action\<close>: the values are converted and checked, then the action is called. A
  store action sets the attribute; the help action prints the help and exits.
\<close>

definition take_action :: "parse_state \<Rightarrow> action \<Rightarrow> string list \<Rightarrow> exn + parse_state" where
  "take_action st a argument_strings =
     (case get_values a argument_strings of
        Inl e \<Rightarrow> Inl e
      | Inr argument_values \<Rightarrow>
          (case action_class a of
             StoreAction \<Rightarrow>
               Inr (st\<lparr> seen_actions := a # seen_actions st,
                        namespace := (namespace st)(dest a \<mapsto> argument_values) \<rparr>)
           | HelpAction \<Rightarrow> Inl HelpExit))"

fun take_actions :: "parse_state \<Rightarrow> (action \<times> string list) list \<Rightarrow> exn + parse_state" where
  "take_actions st [] = Inr st"
| "take_actions st ((a, args) # rest) =
     (case take_action st a args of Inl e \<Rightarrow> Inl e | Inr st' \<Rightarrow> take_actions st' rest)"

fun take_positionals ::
  "parse_state \<Rightarrow> string list \<Rightarrow> nat \<Rightarrow> (action \<times> nat) list \<Rightarrow> exn + (parse_state \<times> nat)" where
  "take_positionals st arg_strings start_index [] = Inr (st, start_index)"
| "take_positionals st arg_strings start_index ((a, arg_count) # rest) =
     (case take_action st a (take arg_count (drop start_index arg_strings)) of
        Inl e \<Rightarrow> Inl e
      | Inr st' \<Rightarrow> take_positionals st' arg_strings (start_index + arg_count) rest)"

definition consume_positionals ::
  "string list \<Rightarrow> string \<Rightarrow> parse_state \<Rightarrow> nat \<Rightarrow> exn + (parse_state \<times> nat)" where
  "consume_positionals arg_strings arg_strings_pattern st start_index =
     (let arg_counts = match_arguments_partial (positionals st)
                         (drop start_index arg_strings_pattern)
      in case take_positionals st arg_strings start_index (zip (positionals st) arg_counts) of
           Inl e \<Rightarrow> Inl e
         | Inr (st', stop) \<Rightarrow>
             Inr (st'\<lparr> positionals := drop (length arg_counts) (positionals st') \<rparr>, stop))"

text \<open>
  The \<open>while True\<close> loop of \<open>consume_optional\<close>. It returns the action tuples, the
  strings added to \<open>extras\<close> and the number of argument strings consumed after the
  option string (\<open>stop = start_index + 1 + n\<close>). With an explicit argument
  (\<open>-ofile\<close>, \<open>--outfile=file\<close>) an action that takes no argument makes the rest of
  the string a cluster of single-dash flags.
\<close>

function optional_tuples ::
  "action list \<Rightarrow> string list \<Rightarrow> string \<Rightarrow> nat \<Rightarrow> action \<Rightarrow> string \<Rightarrow> string option
   \<Rightarrow> string option \<Rightarrow> (action \<times> string list) list
   \<Rightarrow> exn + ((action \<times> string list) list \<times> string list \<times> nat)" where
  "optional_tuples actions arg_strings arg_strings_pattern start_index a option_string sep
     explicit_arg action_tuples =
     (case explicit_arg of
        Some ea \<Rightarrow>
          (case match_argument a ''A'' of
             Inl e \<Rightarrow> Inl e
           | Inr arg_count \<Rightarrow>
               (case option_string of
                  c0 # c1 # _ \<Rightarrow>
                    if arg_count = 0 \<and> c1 \<noteq> CHR ''-'' \<and> ea \<noteq> [] then
                      if (sep \<noteq> None \<and> sep \<noteq> Some []) \<or> hd ea = CHR ''-''
                      then Inl (UsageError (IgnoredExplicitArgument (dest a) ea))
                      else
                        (case map_of (option_string_actions actions) [c0, hd ea] of
                           Some a' \<Rightarrow>
                             if tl ea = [] then
                               optional_tuples actions arg_strings arg_strings_pattern
                                 start_index a' [c0, hd ea] None None
                                 (action_tuples @ [(a, [])])
                             else if hd (tl ea) = CHR ''='' then
                               optional_tuples actions arg_strings arg_strings_pattern
                                 start_index a' [c0, hd ea] (Some ''='') (Some (tl (tl ea)))
                                 (action_tuples @ [(a, [])])
                             else
                               optional_tuples actions arg_strings arg_strings_pattern
                                 start_index a' [c0, hd ea] (Some []) (Some (tl ea))
                                 (action_tuples @ [(a, [])])
                         | None \<Rightarrow> Inr (action_tuples @ [(a, [])], [c0 # ea], 0))
                    else if arg_count = 1 then Inr (action_tuples @ [(a, [ea])], [], 0)
                    else Inl (UsageError (IgnoredExplicitArgument (dest a) ea))
                | _ \<Rightarrow> Inl IndexError))
      | None \<Rightarrow>
          (case match_argument a (drop (start_index + 1) arg_strings_pattern) of
             Inl e \<Rightarrow> Inl e
           | Inr arg_count \<Rightarrow>
               Inr (action_tuples
                      @ [(a, take arg_count (drop (start_index + 1) arg_strings))],
                    [], arg_count)))"
  by pat_completeness auto
termination
  by (relation "measure (\<lambda>(actions, arg_strings, pattern, start_index, a, option_string,
                    sep, explicit_arg, action_tuples).
                  case explicit_arg of None \<Rightarrow> 0 | Some ea \<Rightarrow> Suc (length ea))")
     (auto simp: neq_Nil_conv)

declare optional_tuples.simps [simp del]

definition option_at :: "option_tuple option list \<Rightarrow> nat \<Rightarrow> option_tuple option" where
  "option_at indices i = (if i < length indices then indices ! i else None)"

definition consume_optional ::
  "action list \<Rightarrow> string list \<Rightarrow> option_tuple option list \<Rightarrow> string \<Rightarrow> parse_state \<Rightarrow> nat
   \<Rightarrow> exn + (parse_state \<times> nat)" where
  "consume_optional actions arg_strings indices arg_strings_pattern st start_index =
     (case option_at indices start_index of
        None \<Rightarrow> Inl KeyError
      | Some (None, option_string, sep, explicit_arg) \<Rightarrow>
          Inr (st\<lparr> extras := extras st @ take 1 (drop start_index arg_strings) \<rparr>, 0)
      | Some (Some a, option_string, sep, explicit_arg) \<Rightarrow>
          (case optional_tuples actions arg_strings arg_strings_pattern start_index a
                  option_string sep explicit_arg [] of
             Inl e \<Rightarrow> Inl e
           | Inr (action_tuples, new_extras, n) \<Rightarrow>
               (case take_actions (st\<lparr> extras := extras st @ new_extras \<rparr>) action_tuples of
                  Inl e \<Rightarrow> Inl e
                | Inr st' \<Rightarrow> Inr (st', n))))"

fun option_indices_from :: "nat \<Rightarrow> option_tuple option list \<Rightarrow> nat list" where
  "option_indices_from i [] = []"
| "option_indices_from i (t # ts) =
     (if t \<noteq> None then [i] else []) @ option_indices_from (Suc i) ts"

text \<open>
  The alternation of positionals and optionals. The loop runs while \<open>start_index\<close> is
  at most the largest option index, that is while some option index is at least
  \<open>start_index\<close>; the least of them is \<open>next_option_string_index\<close>. \<open>loop_body\<close> is
  one turn of the loop and gives the next \<open>start_index\<close>: positionals before the next
  option are consumed first; if none could be consumed, the strings before the
  option are extras and the option is consumed.
\<close>

definition loop_body ::
  "action list \<Rightarrow> string list \<Rightarrow> option_tuple option list \<Rightarrow> string \<Rightarrow> parse_state \<Rightarrow> nat
   \<Rightarrow> nat \<Rightarrow> exn + (parse_state \<times> nat)" where
  "loop_body actions arg_strings indices arg_strings_pattern st start_index
     next_option_string_index =
     (if start_index \<noteq> next_option_string_index then
        (case consume_positionals arg_strings arg_strings_pattern st start_index of
           Inl e \<Rightarrow> Inl e
         | Inr (st1, positionals_end_index) \<Rightarrow>
             if positionals_end_index > start_index then Inr (st1, positionals_end_index)
             else
               (case consume_optional actions arg_strings indices arg_strings_pattern
                       (st1\<lparr> extras := extras st1
                              @ take (next_option_string_index - start_index)
                                  (drop start_index arg_strings) \<rparr>)
                       next_option_string_index of
                  Inl e \<Rightarrow> Inl e
                | Inr (st2, n) \<Rightarrow> Inr (st2, next_option_string_index + 1 + n)))
      else
        (case consume_optional actions arg_strings indices arg_strings_pattern st
                start_index of
           Inl e \<Rightarrow> Inl e
         | Inr (st2, n) \<Rightarrow> Inr (st2, start_index + 1 + n)))"

lemma loop_body_increases:
  assumes "loop_body actions arg_strings indices pattern st start_index nxt = Inr (st', i)"
    and "start_index \<le> nxt"
  shows "start_index < i"
  using assms unfolding loop_body_def
  by (auto split: if_splits sum.splits prod.splits)

function consume_loop ::
  "action list \<Rightarrow> string list \<Rightarrow> option_tuple option list \<Rightarrow> string \<Rightarrow> parse_state \<Rightarrow> nat
   \<Rightarrow> exn + (parse_state \<times> nat)" where
  "consume_loop actions arg_strings indices arg_strings_pattern st start_index =
     (case filter (\<lambda>i. start_index \<le> i) (option_indices_from 0 indices) of
        [] \<Rightarrow> Inr (st, start_index)
      | i # is \<Rightarrow>
          (case loop_body actions arg_strings indices arg_strings_pattern st start_index
                  (fold min is i) of
             Inl e \<Rightarrow> Inl e
           | Inr (st', start_index') \<Rightarrow>
               consume_loop actions arg_strings indices arg_strings_pattern st'
                 start_index'))"
  by pat_completeness auto

lemma next_option_bounds:
  assumes "filter (\<lambda>i. start_index \<le> i) idxs = i # is"
  shows "start_index \<le> fold min is i" and "fold min is i \<le> Max (set (0 # idxs))"
proof -
  have eq: "fold min is i = Min (set (i # is))"
    by (simp only: Min.set_eq_fold)
  have "set (i # is) = {x \<in> set idxs. start_index \<le> x}"
    using assms [symmetric] by (simp only: set_filter)
  then have sub: "\<And>x. x \<in> set (i # is) \<Longrightarrow> x \<in> set idxs \<and> start_index \<le> x"
    by blast
  have mem: "Min (set (i # is)) \<in> set (i # is)"
    by (rule Min_in) simp_all
  from sub [OF mem] show "start_index \<le> fold min is i"
    by (simp only: eq)
  from sub [OF mem] have "Min (set (i # is)) \<in> set (0 # idxs)"
    by simp
  then have "Min (set (i # is)) \<le> Max (set (0 # idxs))"
    by (intro Max_ge) simp_all
  then show "fold min is i \<le> Max (set (0 # idxs))"
    by (simp only: eq)
qed

termination consume_loop
proof (relation "measure (\<lambda>(actions, arg_strings, indices, pattern, st, start_index).
                   Suc (Max (set (0 # option_indices_from 0 indices))) - start_index)",
       goal_cases)
  case 1
  then show ?case by simp
next
  case (2 actions arg_strings indices pattern st start_index i "is" x2 st' start_index')
  from 2(2,3) have "loop_body actions arg_strings indices pattern st start_index
                      (fold min is i) = Inr (st', start_index')"
    by simp
  from loop_body_increases [OF this] next_option_bounds [OF 2(1)]
  show ?case by simp
qed

declare consume_loop.simps [simp del]

text \<open>
  The defaults of the actions are put in the namespace first. The help action has
  \<open>dest\<close> and \<open>default\<close> \<open>SUPPRESS\<close> and sets nothing.
\<close>

fun initial_namespace :: "action list \<Rightarrow> (string \<rightharpoonup> pyval) \<Rightarrow> (string \<rightharpoonup> pyval)" where
  "initial_namespace [] ns = ns"
| "initial_namespace (a # as) ns =
     initial_namespace as
       (if action_class a = StoreAction \<and> ns (dest a) = None
        then ns(dest a \<mapsto> default_value a) else ns)"

definition get_positional_actions :: "action list \<Rightarrow> action list" where
  "get_positional_actions actions = filter (\<lambda>a. option_strings a = []) actions"

definition parse_known_args ::
  "action list \<Rightarrow> string list \<Rightarrow> exn + ((string \<rightharpoonup> pyval) \<times> string list)" where
  "parse_known_args actions args =
     (case classify actions args of
        Inl e \<Rightarrow> Inl e
      | Inr (indices, arg_strings_pattern) \<Rightarrow>
          (case consume_loop actions args indices arg_strings_pattern
                  \<lparr> namespace = initial_namespace actions Map.empty, seen_actions = [],
                    positionals = get_positional_actions actions, extras = [] \<rparr> 0 of
             Inl e \<Rightarrow> Inl e
           | Inr (st, start_index) \<Rightarrow>
               (case consume_positionals args arg_strings_pattern st start_index of
                  Inl e \<Rightarrow> Inl e
                | Inr (st', stop_index) \<Rightarrow>
                    (let required_actions =
                           map dest (filter (\<lambda>a. a \<notin> set (seen_actions st') \<and> required a)
                                       actions)
                     in if required_actions \<noteq> []
                        then Inl (UsageError (RequiredArguments required_actions))
                        else Inr (namespace st', extras st' @ drop stop_index args)))))"

definition parse_args :: "action list \<Rightarrow> string list \<Rightarrow> exn + (string \<rightharpoonup> pyval)" where
  "parse_args actions args =
     (case parse_known_args actions args of
        Inl e \<Rightarrow> Inl e
      | Inr (ns, argv) \<Rightarrow>
          if argv \<noteq> [] then Inl (UsageError (UnrecognizedArguments argv)) else Inr ns)"

section \<open>The parsers of the two handlers\<close>

text \<open>
  \<open>show_dist\<close> adds \<open>var\<close> (choices: the numerical columns), \<open>-o/--outfile\<close>
  (\<open>nargs='?'\<close>, default \<open>'output.png'\<close>) and \<open>-c/--categoricals\<close> (\<open>nargs='*'\<close>,
  default \<open>[]\<close>, choices: the columns). \<open>show_biv_dist\<close> adds \<open>v1\<close>, \<open>v2\<close> and the
  optional positional \<open>plot_type\<close> before the same two options.
\<close>

definition show_dist_parser :: "string list \<Rightarrow> string list \<Rightarrow> action list" where
  "show_dist_parser numericals column_values =
     [help_action,
      add_positional ''var'' NargsNone PNone (Some numericals),
      add_optional [''-o'', ''--outfile''] ''outfile'' OPTIONAL (PStr ''output.png'') None,
      add_optional [''-c'', ''--categoricals''] ''categoricals'' ZERO_OR_MORE (PList [])
        (Some column_values)]"

definition show_biv_dist_parser :: "string list \<Rightarrow> string list \<Rightarrow> action list" where
  "show_biv_dist_parser numericals column_values =
     [help_action,
      add_positional ''v1'' NargsNone PNone (Some numericals),
      add_positional ''v2'' NargsNone PNone (Some numericals),
      add_positional ''plot_type'' OPTIONAL (PStr ''heatmap'')
        (Some [''heatmap'', ''gaussian'']),
      add_optional [''-o'', ''--outfile''] ''outfile'' OPTIONAL (PStr ''output.png'') None,
      add_optional [''-c'', ''--categoricals''] ''categoricals'' ZERO_OR_MORE (PList [])
        (Some column_values)]"

section \<open>The dataset\<close>

text \<open>
  A cell of the pandas dataframe is a string, a number or a missing value (\<open>NaN\<close>,
  \<open>None\<close>). A row label of the index is one cell, or a tuple of cells for a
  \<open>MultiIndex\<close>. The frame is stored by column, in column order.
\<close>

datatype cell = Str string | Num real | Null

datatype label = Scalar cell | Tuple "cell list"

record dataframe =
  df_columns :: "(string \<times> cell list) list"
  df_index :: "label list"

definition columns_values :: "dataframe \<Rightarrow> string list" where
  "columns_values d = map fst (df_columns d)"

definition get_column :: "dataframe \<Rightarrow> string \<Rightarrow> cell list option" where
  "get_column d c = map_of (df_columns d) c"

text \<open>Every column of a frame has one cell per row label, and the names differ.\<close>

definition wf_frame :: "dataframe \<Rightarrow> bool" where
  "wf_frame d =
     (distinct (columns_values d) \<and>
      list_all (\<lambda>(n, cs). length cs = length (df_index d)) (df_columns d))"

text \<open>
  \<open>DataFrame.set_index(keys)\<close> without \<open>inplace\<close> returns a new frame: the key
  columns are removed from the columns and their values, row by row, become the
  index. A key that is not a column raises \<open>KeyError\<close>. Several keys make a
  \<open>MultiIndex\<close> of tuples.
\<close>

definition set_index :: "dataframe \<Rightarrow> string list \<Rightarrow> exn + dataframe" where
  "set_index d keys =
     (case those (map (get_column d) keys) of
        None \<Rightarrow> Inl KeyError
      | Some arrays \<Rightarrow>
          Inr \<lparr> df_columns = filter (\<lambda>(n, cs). n \<notin> set keys) (df_columns d),
                df_index = map (\<lambda>i. case arrays of
                                       [a] \<Rightarrow> Scalar (a ! i)
                                     | _ \<Rightarrow> Tuple (map (\<lambda>a. a ! i) arrays))
                             [0..<length (df_index d)] \<rparr>)"

text \<open>
  \<open>'_'.join(row)\<close>: every item of the row must be a string, otherwise \<open>str.join\<close>
  raises \<open>TypeError\<close>. A row that is itself a string is joined character by
  character.
\<close>

fun join :: "string \<Rightarrow> string list \<Rightarrow> string" where
  "join sep [] = []"
| "join sep [s] = s"
| "join sep (s # t # ts) = s @ sep @ join sep (t # ts)"

definition cell_string :: "cell \<Rightarrow> string option" where
  "cell_string c = (case c of Str s \<Rightarrow> Some s | _ \<Rightarrow> None)"

definition str_join :: "label \<Rightarrow> exn + string" where
  "str_join row =
     (case row of
        Tuple cs \<Rightarrow>
          (case those (map cell_string cs) of
             None \<Rightarrow> Inl TypeError
           | Some ss \<Rightarrow> Inr (join ''_'' ss))
      | Scalar (Str s) \<Rightarrow> Inr (join ''_'' (map (\<lambda>c. [c]) s))
      | Scalar _ \<Rightarrow> Inl TypeError)"

text \<open>The list comprehension over the rows stops at the first row that raises.\<close>

fun join_rows :: "label list \<Rightarrow> exn + string list" where
  "join_rows [] = Inr []"
| "join_rows (row # rows) =
     (case str_join row of
        Inl e \<Rightarrow> Inl e
      | Inr s \<Rightarrow> (case join_rows rows of Inl e \<Rightarrow> Inl e | Inr ss \<Rightarrow> Inr (s # ss)))"

section \<open>Figures, files and the display\<close>

text \<open>
  A figure is the record of the \<open>sns.displot\<close> call that made it and of the titles
  set afterwards. The \<open>col\<close> argument is a column name or a vector with one entry
  per row. The title \<open>f"... BY {categoricals}"\<close> is kept as the text before the
  list and the list.
\<close>

datatype col_arg = ColName string | ColVector "label list"

record figure =
  fig_data :: dataframe
  fig_x :: string
  fig_y :: "string option"
  fig_kind :: string
  fig_kde :: bool
  fig_color :: "string option"
  fig_bins :: "string option"
  fig_col :: "col_arg option"
  fig_col_wrap :: "nat option"
  fig_titles :: "string option"
  fig_suptitle :: "(string \<times> string list) option"
  fig_top :: "real option"

text \<open>
  The facet variable of a figure, one label per plotted row, and its levels: the
  distinct values that are not missing. The grid has one subplot per level, and one
  subplot when there is no facet variable.
\<close>

definition facet_column :: "figure \<Rightarrow> label list" where
  "facet_column fig =
     (case fig_col fig of
        None \<Rightarrow> []
      | Some (ColName c) \<Rightarrow>
          (case get_column (fig_data fig) c of None \<Rightarrow> [] | Some cs \<Rightarrow> map Scalar cs)
      | Some (ColVector v) \<Rightarrow> v)"

definition facet_levels :: "figure \<Rightarrow> label list" where
  "facet_levels fig = remdups (filter (\<lambda>l. l \<noteq> Scalar Null) (facet_column fig))"

definition n_subplots :: "figure \<Rightarrow> nat" where
  "n_subplots fig = (if fig_col fig = None then 1 else length (facet_levels fig))"

text \<open>
  The world a handler runs in: the dataframe objects by reference, the files written
  (a file holds the figure saved to it) and the events in the order they happened.
\<close>

type_synonym ref = nat

datatype event =
    Displot figure
  | Savefig string figure
  | ImageOpen string
  | ImageShow figure

record world =
  heap :: "ref \<Rightarrow> dataframe"
  next_ref :: ref
  files :: "string \<rightharpoonup> figure"
  events :: "event list"

text \<open>
  \<open>sns.displot\<close> reads the frame and builds a figure. A variable given by name must
  be a column of \<open>data\<close>, and a vector must have the length of \<open>data\<close>; otherwise
  seaborn raises \<open>ValueError\<close>. The argument is the figure record holding the
  keyword arguments of the call.
\<close>

definition displot :: "world \<Rightarrow> figure \<Rightarrow> (exn + figure) \<times> world" where
  "displot w kwargs =
     (let d = fig_data kwargs in
      if get_column d (fig_x kwargs) = None then (Inl ValueError, w)
      else if (case fig_y kwargs of None \<Rightarrow> False | Some y \<Rightarrow> get_column d y = None)
        then (Inl ValueError, w)
      else if (case fig_col kwargs of
                 None \<Rightarrow> False
               | Some (ColName c) \<Rightarrow> get_column d c = None
               | Some (ColVector v) \<Rightarrow> length v \<noteq> length (df_index d))
        then (Inl ValueError, w)
      else (Inr kwargs, w\<lparr> events := events w @ [Displot kwargs] \<rparr>))"

text \<open>
  \<open>plot.figure.savefig(fname)\<close> writes the figure to the file; a file name that is
  not a string makes the library raise. \<open>Image.open\<close> reads the file and raises
  \<open>FileNotFoundError\<close> when it does not exist; \<open>img.show()\<close> displays the image.
\<close>

definition savefig :: "world \<Rightarrow> figure \<Rightarrow> pyval \<Rightarrow> (exn + unit) \<times> world" where
  "savefig w plot fname =
     (case fname of
        PStr f \<Rightarrow> (Inr (), w\<lparr> files := (files w)(f \<mapsto> plot),
                               events := events w @ [Savefig f plot] \<rparr>)
      | _ \<Rightarrow> (Inl LibraryError, w))"

definition Image_open :: "world \<Rightarrow> pyval \<Rightarrow> (exn + figure) \<times> world" where
  "Image_open w fname =
     (case fname of
        PStr f \<Rightarrow>
          (case files w f of
             None \<Rightarrow> (Inl FileNotFoundError, w)
           | Some img \<Rightarrow> (Inr img, w\<lparr> events := events w @ [ImageOpen f] \<rparr>))
      | _ \<Rightarrow> (Inl LibraryError, w))"

definition Image_show :: "world \<Rightarrow> figure \<Rightarrow> world" where
  "Image_show w img = w\<lparr> events := events w @ [ImageShow img] \<rparr>"

section \<open>The plot routines of \<open>dist.py\<close>\<close>

text \<open>
  \<open>__plot_dist\<close>: one histogram with a density curve, titled with the variable.
\<close>

definition plot_dist :: "world \<Rightarrow> ref \<Rightarrow> string \<Rightarrow> (exn + figure) \<times> world" where
  "plot_dist w data var =
     (case displot w \<lparr> fig_data = heap w data, fig_x = var, fig_y = None,
                        fig_kind = ''hist'', fig_kde = True, fig_color = Some ''r'',
                        fig_bins = Some ''sqrt'', fig_col = None, fig_col_wrap = None,
                        fig_titles = None, fig_suptitle = None, fig_top = None \<rparr> of
        (Inl e, w') \<Rightarrow> (Inl e, w')
      | (Inr plot, w') \<Rightarrow> (Inr (plot\<lparr> fig_titles := Some (''DISTRIBUTION OF '' @ var) \<rparr>), w'))"

text \<open>
  \<open>__plot_dist_by_categoricals\<close>. With more than one categorical, \<open>plot_data\<close> is a
  new frame made by \<open>set_index\<close>; its index is then replaced by the joined labels,
  and the plot is made from \<open>plot_data\<close> with the index values as \<open>col\<close>. With one
  categorical the plot is made from \<open>data\<close> with that column as \<open>col\<close>.
\<close>

definition plot_dist_by_categoricals ::
  "world \<Rightarrow> ref \<Rightarrow> string \<Rightarrow> string list \<Rightarrow> (exn + figure) \<times> world" where
  "plot_dist_by_categoricals w data var categoricals =
     (case
        (if length categoricals > 1 then
           (case set_index (heap w data) categoricals of
              Inl e \<Rightarrow> (Inl e, w)
            | Inr new_frame \<Rightarrow>
                (let plot_data = next_ref w;
                     w1 = w\<lparr> heap := (heap w)(plot_data := new_frame),
                              next_ref := Suc (next_ref w) \<rparr>
                 in case join_rows (df_index (heap w1 plot_data)) of
                      Inl e \<Rightarrow> (Inl e, w1)
                    | Inr labels \<Rightarrow>
                        (let w2 = w1\<lparr> heap := (heap w1)
                                     (plot_data := (heap w1 plot_data)
                                        \<lparr> df_index := map (\<lambda>s. Scalar (Str s)) labels \<rparr>) \<rparr>
                         in displot w2
                              \<lparr> fig_data = heap w2 plot_data, fig_x = var, fig_y = None,
                                fig_kind = ''hist'', fig_kde = True, fig_color = None,
                                fig_bins = Some ''sqrt'',
                                fig_col = Some (ColVector (df_index (heap w2 plot_data))),
                                fig_col_wrap = Some 3, fig_titles = None,
                                fig_suptitle = None, fig_top = None \<rparr>)))
         else
           (case categoricals of
              [] \<Rightarrow> (Inl IndexError, w)
            | c # _ \<Rightarrow>
                displot w
                  \<lparr> fig_data = heap w data, fig_x = var, fig_y = None,
                    fig_kind = ''hist'', fig_kde = True, fig_color = None,
                    fig_bins = Some ''sqrt'', fig_col = Some (ColName c),
                    fig_col_wrap = Some 3, fig_titles = None, fig_suptitle = None,
                    fig_top = None \<rparr>)) of
        (Inl e, w') \<Rightarrow> (Inl e, w')
      | (Inr plot, w') \<Rightarrow>
          (Inr (plot\<lparr> fig_top := Some (9 / 10),
                      fig_suptitle := Some (''DISTRIBUTION OF '' @ var @ '' BY '',
                                            categoricals) \<rparr>), w'))"

text \<open>
  \<open>__plot_biv_dist\<close>: \<open>kind\<close> is \<open>'kde'\<close> for the plot type \<open>'gaussian'\<close> and
  \<open>'hist'\<close> otherwise.
\<close>

definition plot_biv_dist ::
  "world \<Rightarrow> ref \<Rightarrow> string \<Rightarrow> string \<Rightarrow> string \<Rightarrow> (exn + figure) \<times> world" where
  "plot_biv_dist w data v1 v2 plot_type =
     (let kind = (if plot_type = ''gaussian'' then ''kde'' else ''hist'') in
      case displot w \<lparr> fig_data = heap w data, fig_x = v1, fig_y = Some v2,
                        fig_kind = kind, fig_kde = False, fig_color = None,
                        fig_bins = None, fig_col = None, fig_col_wrap = None,
                        fig_titles = None, fig_suptitle = None, fig_top = None \<rparr> of
        (Inl e, w') \<Rightarrow> (Inl e, w')
      | (Inr plot, w') \<Rightarrow>
          (Inr (plot\<lparr> fig_titles := Some (''DISTRIBUTION OF '' @ v1 @ '', '' @ v2) \<rparr>), w'))"

text \<open>
  \<open>__plot_biv_dist_by_categoricals\<close>. With more than one categorical the joined
  labels are built on \<open>plot_data\<close> as above, but the plot is made from \<open>data\<close>, with
  the index values of \<open>plot_data\<close> as \<open>col\<close>.
\<close>

definition plot_biv_dist_by_categoricals ::
  "world \<Rightarrow> ref \<Rightarrow> string \<Rightarrow> string \<Rightarrow> string \<Rightarrow> string list \<Rightarrow> (exn + figure) \<times> world" where
  "plot_biv_dist_by_categoricals w data v1 v2 plot_type categoricals =
     (let kind = (if plot_type = ''gaussian'' then ''kde'' else ''hist'') in
      case
        (if length categoricals > 1 then
           (case set_index (heap w data) categoricals of
              Inl e \<Rightarrow> (Inl e, w)
            | Inr new_frame \<Rightarrow>
                (let plot_data = next_ref w;
                     w1 = w\<lparr> heap := (heap w)(plot_data := new_frame),
                              next_ref := Suc (next_ref w) \<rparr>
                 in case join_rows (df_index (heap w1 plot_data)) of
                      Inl e \<Rightarrow> (Inl e, w1)
                    | Inr labels \<Rightarrow>
                        (let w2 = w1\<lparr> heap := (heap w1)
                                     (plot_data := (heap w1 plot_data)
                                        \<lparr> df_index := map (\<lambda>s. Scalar (Str s)) labels \<rparr>) \<rparr>
                         in displot w2
                              \<lparr> fig_data = heap w2 data, fig_x = v1, fig_y = Some v2,
                                fig_kind = kind, fig_kde = False, fig_color = None,
                                fig_bins = None,
                                fig_col = Some (ColVector (df_index (heap w2 plot_data))),
                                fig_col_wrap = Some 3, fig_titles = None,
                                fig_suptitle = None, fig_top = None \<rparr>)))
         else
           (case categoricals of
              [] \<Rightarrow> (Inl IndexError, w)
            | c # _ \<Rightarrow>
                displot w
                  \<lparr> fig_data = heap w data, fig_x = v1, fig_y = Some v2,
                    fig_kind = kind, fig_kde = False, fig_color = None,
                    fig_bins = None, fig_col = Some (ColName c),
                    fig_col_wrap = Some 3, fig_titles = None, fig_suptitle = None,
                    fig_top = None \<rparr>)) of
        (Inl e, w') \<Rightarrow> (Inl e, w')
      | (Inr plot, w') \<Rightarrow>
          (Inr (plot\<lparr> fig_top := Some (9 / 10),
                      fig_suptitle := Some (''DISTRIBUTION OF '' @ v1 @ '', '' @ v2 @ '' BY '',
                                            categoricals) \<rparr>), w'))"

section \<open>The handlers\<close>

text \<open>
  The attributes of the parsed namespace. After a successful parse every attribute
  read by the handlers is set: the variables and the plot type to a string, the
  categoricals to a list, the output file to a string or \<open>None\<close>.
\<close>

definition attr :: "(string \<rightharpoonup> pyval) \<Rightarrow> string \<Rightarrow> pyval" where
  "attr ns d = (case ns d of Some v \<Rightarrow> v | None \<Rightarrow> PNone)"

definition attr_str :: "(string \<rightharpoonup> pyval) \<Rightarrow> string \<Rightarrow> string" where
  "attr_str ns d = (case ns d of Some (PStr s) \<Rightarrow> s | _ \<Rightarrow> [])"

definition attr_list :: "(string \<rightharpoonup> pyval) \<Rightarrow> string \<Rightarrow> string list" where
  "attr_list ns d = (case ns d of Some (PList l) \<Rightarrow> l | _ \<Rightarrow> [])"

text \<open>
  \<open>utils.get_numericals\<close> and \<open>utils.check_valid_png\<close> belong to a module that is
  not part of \<open>dist.py\<close>; they are parameters of the handlers. The first gives the
  names of the numerical columns of a frame, the second returns \<open>-1\<close> for a file
  name it rejects.
\<close>

definition show_dist ::
  "(dataframe \<Rightarrow> string list) \<Rightarrow> (pyval \<Rightarrow> exn + int) \<Rightarrow> world \<Rightarrow> ref \<Rightarrow> string list
   \<Rightarrow> (exn + unit) \<times> world" where
  "show_dist get_numericals check_valid_png w data args =
     (case parse_args (show_dist_parser (get_numericals (heap w data))
                         (columns_values (heap w data))) args of
        Inl e \<Rightarrow> (Inl e, w)
      | Inr parsed_args \<Rightarrow>
          (case check_valid_png (attr parsed_args ''outfile'') of
             Inl e \<Rightarrow> (Inl e, w)
           | Inr rc \<Rightarrow>
               if rc = - 1 then (Inr (), w)
               else
                 (case (if attr_list parsed_args ''categoricals'' = []
                        then plot_dist w data (attr_str parsed_args ''var'')
                        else plot_dist_by_categoricals w data (attr_str parsed_args ''var'')
                               (attr_list parsed_args ''categoricals'')) of
                    (Inl e, w1) \<Rightarrow> (Inl e, w1)
                  | (Inr plot, w1) \<Rightarrow>
                      (case savefig w1 plot (attr parsed_args ''outfile'') of
                         (Inl e, w2) \<Rightarrow> (Inl e, w2)
                       | (Inr _, w2) \<Rightarrow>
                           (case Image_open w2 (attr parsed_args ''outfile'') of
                              (Inl e, w3) \<Rightarrow> (Inl e, w3)
                            | (Inr img, w3) \<Rightarrow> (Inr (), Image_show w3 img))))))"

definition show_biv_dist ::
  "(dataframe \<Rightarrow> string list) \<Rightarrow> (pyval \<Rightarrow> exn + int) \<Rightarrow> world \<Rightarrow> ref \<Rightarrow> string list
   \<Rightarrow> (exn + unit) \<times> world" where
  "show_biv_dist get_numericals check_valid_png w data args =
     (case parse_args (show_biv_dist_parser (get_numericals (heap w data))
                         (columns_values (heap w data))) args of
        Inl e \<Rightarrow> (Inl e, w)
      | Inr parsed_args \<Rightarrow>
          (case check_valid_png (attr parsed_args ''outfile'') of
             Inl e \<Rightarrow> (Inl e, w)
           | Inr rc \<Rightarrow>
               if rc = - 1 then (Inr (), w)
               else
                 (case (if attr_list parsed_args ''categoricals'' = []
                        then plot_biv_dist w data (attr_str parsed_args ''v1'')
                               (attr_str parsed_args ''v2'') (attr_str parsed_args ''plot_type'')
                        else plot_biv_dist_by_categoricals w data (attr_str parsed_args ''v1'')
                               (attr_str parsed_args ''v2'') (attr_str parsed_args ''plot_type'')
                               (attr_list parsed_args ''categoricals'')) of
                    (Inl e, w1) \<Rightarrow> (Inl e, w1)
                  | (Inr plot, w1) \<Rightarrow>
                      (case savefig w1 plot (attr parsed_args ''outfile'') of
                         (Inl e, w2) \<Rightarrow> (Inl e, w2)
                       | (Inr _, w2) \<Rightarrow>
                           (case Image_open w2 (attr parsed_args ''outfile'') of
                              (Inl e, w3) \<Rightarrow> (Inl e, w3)
                            | (Inr img, w3) \<Rightarrow> (Inr (), Image_show w3 img))))))"

section \<open>Example inputs\<close>

text \<open>
  A small dataset with two numerical and two string columns, held at reference \<open>0\<close>
  of a world with no files and no events. \<open>numeric_columns\<close> is an instance of
  \<open>get_numericals\<close> (the columns whose cells are all numbers) and \<open>png_only\<close> an
  instance of \<open>check_valid_png\<close> (it accepts the names that end in \<open>.png\<close>).
\<close>

definition example_frame :: dataframe where
  "example_frame =
     \<lparr> df_columns =
         [(''age'', [Num 31, Num 45, Num 31, Num 52]),
          (''height'', [Num 170, Num 182, Num 165, Num 170]),
          (''sex'', [Str ''f'', Str ''m'', Str ''f'', Str ''m'']),
          (''city'', [Str ''york'', Str ''york'', Str ''bath'', Str ''york''])],
       df_index = [Scalar (Num 0), Scalar (Num 1), Scalar (Num 2), Scalar (Num 3)] \<rparr>"

definition example_world :: world where
  "example_world =
     \<lparr> heap = (\<lambda>r. \<lparr> df_columns = [], df_index = [] \<rparr>)(0 := example_frame),
       next_ref = 1, files = Map.empty, events = [] \<rparr>"

definition is_num :: "cell \<Rightarrow> bool" where
  "is_num c = (case c of Num x \<Rightarrow> True | _ \<Rightarrow> False)"

definition numeric_columns :: "dataframe \<Rightarrow> string list" where
  "numeric_columns d = map fst (filter (\<lambda>(n, cs). list_all is_num cs) (df_columns d))"

definition png_only :: "pyval \<Rightarrow> exn + int" where
  "png_only fname =
     (case fname of
        PStr f \<Rightarrow> if drop (length f - 4) f = ''.png'' then Inr 0 else Inr (- 1)
      | _ \<Rightarrow> Inl TypeError)"

definition dashed_frame :: dataframe where
  "dashed_frame =
     \<lparr> df_columns = [(''-t'', [Num 3, Num 5]), (''x'', [Num 1, Num 2])],
       df_index = [Scalar (Num 0), Scalar (Num 1)] \<rparr>"

definition dashed_world :: world where
  "dashed_world =
     \<lparr> heap = (\<lambda>r. \<lparr> df_columns = [], df_index = [] \<rparr>)(0 := dashed_frame),
       next_ref = 1, files = Map.empty, events = [] \<rparr>"

text \<open>
  The composite label of a row, in the words of the specification: the values of the
  listed categoricals in that row, joined with underscores. \<open>cell_at\<close> is the value of
  a column in a row. The label exists when every listed name is a column and every
  value is a string.
\<close>

definition cell_at :: "dataframe \<Rightarrow> string \<Rightarrow> nat \<Rightarrow> cell option" where
  "cell_at d c i =
     (case get_column d c of
        None \<Rightarrow> None
      | Some cs \<Rightarrow> if i < length cs then Some (cs ! i) else None)"

definition composite_label :: "dataframe \<Rightarrow> string list \<Rightarrow> nat \<Rightarrow> string option" where
  "composite_label d categoricals i =
     (case those (map (\<lambda>c. cell_at d c i) categoricals) of
        None \<Rightarrow> None
      | Some cells \<Rightarrow>
          (case those (map cell_string cells) of
             None \<Rightarrow> None
           | Some ss \<Rightarrow> Some (join ''_'' ss)))"

section \<open>Invariants of the parsing loop\<close>

text \<open>
  \<open>preserved actions Inv\<close>: storing a value that \<open>get_values\<close> accepted for an action
  of the parser keeps the property \<open>Inv\<close> of the namespace and the seen actions.
\<close>

definition preserved ::
  "action list \<Rightarrow> ((string \<rightharpoonup> pyval) \<Rightarrow> action list \<Rightarrow> bool) \<Rightarrow> bool" where
  "preserved actions Inv =
     (\<forall>ns seen a args v. a \<in> set actions \<longrightarrow> Inv ns seen \<longrightarrow> get_values a args = Inr v \<longrightarrow>
        action_class a = StoreAction \<longrightarrow> Inv (ns(dest a \<mapsto> v)) (a # seen))"

definition state_inv ::
  "action list \<Rightarrow> ((string \<rightharpoonup> pyval) \<Rightarrow> action list \<Rightarrow> bool) \<Rightarrow> parse_state \<Rightarrow> bool" where
  "state_inv actions Inv st =
     (Inv (namespace st) (seen_actions st) \<and> set (positionals st) \<subseteq> set actions)"

definition indices_in :: "action list \<Rightarrow> option_tuple option list \<Rightarrow> bool" where
  "indices_in actions indices =
     (\<forall>a os sep ea. Some (Some a, os, sep, ea) \<in> set indices \<longrightarrow> a \<in> set actions)"

text \<open>
  The parser with the \<open>choices\<close> restriction lifted from every argument reads the
  same token list into the same attributes, but accepts any name. It says which
  token the parser takes for which argument. \<open>rejected\<close> is the invalid-choice usage
  error, and \<open>follows r f y\<close> says that the checked run \<open>r\<close> either gives a result
  that \<open>f\<close> maps to the result \<open>y\<close> of the unchecked run, or is rejected.
\<close>

definition drop_choices :: "action \<Rightarrow> action" where
  "drop_choices a = a\<lparr> choices := None \<rparr>"

definition without_choices :: "action list \<Rightarrow> action list" where
  "without_choices actions = map drop_choices actions"

definition lift_tuple :: "option_tuple \<Rightarrow> option_tuple" where
  "lift_tuple t = (case t of (a, os, sep, ea) \<Rightarrow> (map_option drop_choices a, os, sep, ea))"

definition lift_state :: "parse_state \<Rightarrow> parse_state" where
  "lift_state st = st\<lparr> seen_actions := map drop_choices (seen_actions st),
                       positionals := map drop_choices (positionals st) \<rparr>"

definition rejected :: "exn + 'a \<Rightarrow> bool" where
  "rejected r = (\<exists>d v. r = Inl (UsageError (InvalidChoice d v)))"

definition follows :: "exn + 'a \<Rightarrow> ('a \<Rightarrow> 'b) \<Rightarrow> 'b \<Rightarrow> bool" where
  "follows r f y = ((\<exists>x. r = Inr x \<and> f x = y) \<or> rejected r)"

text \<open>
  What an accepted namespace says about the names: a variable is a numerical column,
  the plot type is one of the two choices, the categoricals are a list of columns.
\<close>

definition dist_names_ok ::
  "string list \<Rightarrow> string list \<Rightarrow> (string \<rightharpoonup> pyval) \<Rightarrow> action list \<Rightarrow> bool" where
  "dist_names_ok nums cols ns seen =
     ((\<forall>v. ns ''var'' = Some (PStr v) \<longrightarrow> v \<in> set nums) \<and>
      (\<exists>l. ns ''categoricals'' = Some (PList l) \<and> set l \<subseteq> set cols))"

definition biv_names_ok ::
  "string list \<Rightarrow> string list \<Rightarrow> (string \<rightharpoonup> pyval) \<Rightarrow> action list \<Rightarrow> bool" where
  "biv_names_ok nums cols ns seen =
     ((\<forall>v. ns ''v1'' = Some (PStr v) \<longrightarrow> v \<in> set nums) \<and>
      (\<forall>v. ns ''v2'' = Some (PStr v) \<longrightarrow> v \<in> set nums) \<and>
      (\<forall>t. ns ''plot_type'' = Some (PStr t) \<longrightarrow> t = ''heatmap'' \<or> t = ''gaussian'') \<and>
      (\<exists>l. ns ''categoricals'' = Some (PList l) \<and> set l \<subseteq> set cols))"

text \<open>
  What the loop hands to \<open>get_values\<close>. \<open>pattern_of\<close> relates the argument strings to
  their pattern: a \<open>-\<close> stands for the string \<open>--\<close>, and there is at most one.
  \<open>slice_ok\<close>: a positional is given strings of the token list, and an optional
  positional (\<open>nargs='?'\<close>) at most one string besides the separator. \<open>preserved_on\<close> is
  \<open>preserved\<close> for such strings only, and \<open>indices_opt\<close> says that the actions found by
  option string do have option strings.
\<close>

definition slice_ok :: "string list \<Rightarrow> action \<Rightarrow> string list \<Rightarrow> bool" where
  "slice_ok arg_strings a args =
     (option_strings a = [] \<longrightarrow>
        set args \<subseteq> set arg_strings \<and>
        (nargs a = OPTIONAL \<longrightarrow> length (remove1 ''--'' args) \<le> 1))"

definition preserved_on ::
  "string list \<Rightarrow> action list \<Rightarrow> ((string \<rightharpoonup> pyval) \<Rightarrow> action list \<Rightarrow> bool) \<Rightarrow> bool" where
  "preserved_on arg_strings actions Inv =
     (\<forall>ns seen a args v. a \<in> set actions \<longrightarrow> Inv ns seen \<longrightarrow> slice_ok arg_strings a args \<longrightarrow>
        get_values a args = Inr v \<longrightarrow> action_class a = StoreAction \<longrightarrow>
        Inv (ns(dest a \<mapsto> v)) (a # seen))"

definition is_optional :: "action \<Rightarrow> bool" where
  "is_optional a = (option_strings a \<noteq> [])"

definition indices_opt :: "option_tuple option list \<Rightarrow> bool" where
  "indices_opt indices =
     (\<forall>a os sep ea. Some (Some a, os, sep, ea) \<in> set indices \<longrightarrow> is_optional a)"

definition pattern_of :: "string list \<Rightarrow> string \<Rightarrow> bool" where
  "pattern_of arg_strings pattern =
     (length pattern = length arg_strings \<and>
      (\<forall>k < length pattern. pattern ! k = CHR ''-'' \<longrightarrow> arg_strings ! k = ''--'') \<and>
      length (filter (\<lambda>c. c = CHR ''-'') pattern) \<le> 1)"

text \<open>
  The plot type of a namespace is the default \<open>heatmap\<close> or one of the tokens.
\<close>

definition plot_type_from :: "string list \<Rightarrow> (string \<rightharpoonup> pyval) \<Rightarrow> action list \<Rightarrow> bool" where
  "plot_type_from tokens ns seen =
     (ns ''plot_type'' = Some (PStr ''heatmap'') \<or>
      (\<exists>s \<in> set tokens. ns ''plot_type'' = Some (PStr s)))"

lemma option_string_actions_mem:
  "map_of (option_string_actions actions) s = Some a \<Longrightarrow> a \<in> set actions"
  by (auto simp: option_string_actions_def dest!: map_of_SomeD)

lemma get_option_tuples_mem:
  "(Some a, os, sep, ea) \<in> set (get_option_tuples actions s) \<Longrightarrow> a \<in> set actions"
  by (auto simp: get_option_tuples_def option_string_actions_def
           split: list.splits if_splits prod.splits)

lemma get_option_tuples_single_mem:
  "get_option_tuples actions s = [(Some a, os, sep, ea)] \<Longrightarrow> a \<in> set actions"
  using get_option_tuples_mem [of a os sep ea actions s] by simp

lemma parse_optional_mem:
  "parse_optional actions s = Inr (Some (Some a, os, sep, ea)) \<Longrightarrow> a \<in> set actions"
  unfolding parse_optional_def
  by (auto split: if_splits option.splits prod.splits list.splits
           dest: option_string_actions_mem get_option_tuples_single_mem)

lemma classify_mem:
  "classify actions args = Inr (indices, pattern) \<Longrightarrow>
   Some (Some a, os, sep, ea) \<in> set indices \<Longrightarrow> a \<in> set actions"
proof (induction args arbitrary: indices pattern)
  case Nil
  then show ?case by simp
next
  case (Cons arg_string rest)
  then show ?case
    by (auto split: if_splits sum.splits prod.splits dest: parse_optional_mem)
qed


lemma take_action_inv:
  assumes "preserved actions Inv" "a \<in> set actions" "state_inv actions Inv st"
    and "take_action st a args = Inr st'"
  shows "state_inv actions Inv st'"
proof -
  from assms(4) obtain v where v: "get_values a args = Inr v"
    and cls: "action_class a = StoreAction"
    and st': "st' = st\<lparr> seen_actions := a # seen_actions st,
                         namespace := (namespace st)(dest a \<mapsto> v) \<rparr>"
    by (auto simp: take_action_def split: sum.splits action_class.splits)
  from assms(1,2,3) v cls have "Inv ((namespace st)(dest a \<mapsto> v)) (a # seen_actions st)"
    unfolding preserved_def state_inv_def by blast
  with assms(3) show ?thesis
    by (simp add: st' state_inv_def)
qed

lemma take_actions_inv:
  assumes "preserved actions Inv"
  shows "list_all (\<lambda>t. fst t \<in> set actions) tuples \<Longrightarrow> state_inv actions Inv st \<Longrightarrow>
         take_actions st tuples = Inr st' \<Longrightarrow> state_inv actions Inv st'"
proof (induction tuples arbitrary: st)
  case Nil
  then show ?case by simp
next
  case (Cons t tuples)
  obtain a args where t: "t = (a, args)" by (cases t)
  from Cons.prems(3) obtain st1 where s1: "take_action st a args = Inr st1"
    and rest: "take_actions st1 tuples = Inr st'"
    by (auto simp: t split: sum.splits)
  from Cons.prems(1) have "a \<in> set actions" by (simp add: t)
  from take_action_inv [OF assms this Cons.prems(2) s1] have "state_inv actions Inv st1" .
  with Cons.IH [of st1] Cons.prems(1) rest show ?case by simp
qed

lemma take_positionals_inv:
  assumes "preserved actions Inv"
  shows "list_all (\<lambda>t. fst t \<in> set actions) zs \<Longrightarrow> state_inv actions Inv st \<Longrightarrow>
         take_positionals st arg_strings i zs = Inr (st', j) \<Longrightarrow> state_inv actions Inv st'"
proof (induction zs arbitrary: st i)
  case Nil
  then show ?case by simp
next
  case (Cons z zs)
  obtain a n where z: "z = (a, n)" by (cases z)
  from Cons.prems(3) obtain st1 where
    s1: "take_action st a (take n (drop i arg_strings)) = Inr st1"
    and rest: "take_positionals st1 arg_strings (i + n) zs = Inr (st', j)"
    by (auto simp: z split: sum.splits)
  from Cons.prems(1) have "a \<in> set actions" by (simp add: z)
  from take_action_inv [OF assms this Cons.prems(2) s1] have "state_inv actions Inv st1" .
  with Cons.IH [of st1 "i + n"] Cons.prems(1) rest show ?case by simp
qed

lemma consume_positionals_inv:
  assumes "preserved actions Inv" "state_inv actions Inv st"
    and "consume_positionals arg_strings pattern st i = Inr (st', j)"
  shows "state_inv actions Inv st'"
proof -
  define counts where "counts = match_arguments_partial (positionals st) (drop i pattern)"
  from assms(3) obtain st1 where
    tp: "take_positionals st arg_strings i (zip (positionals st) counts) = Inr (st1, j)"
    and st': "st' = st1\<lparr> positionals := drop (length counts) (positionals st1) \<rparr>"
    by (auto simp: consume_positionals_def counts_def Let_def split: sum.splits)
  have "list_all (\<lambda>t. fst t \<in> set actions) (zip (positionals st) counts)"
    using assms(2) by (auto simp: state_inv_def list_all_iff dest: set_zip_leftD)
  from take_positionals_inv [OF assms(1) this assms(2) tp]
  have "state_inv actions Inv st1" .
  then show ?thesis
    using set_drop_subset [of "length counts" "positionals st1"]
    by (auto simp: st' state_inv_def)
qed

lemma optional_tuples_mem:
  "optional_tuples actions arg_strings pattern i a option_string sep explicit_arg tuples
     = Inr (tuples', ex, n) \<Longrightarrow>
   a \<in> set actions \<Longrightarrow> list_all (\<lambda>t. fst t \<in> set actions) tuples \<Longrightarrow>
   list_all (\<lambda>t. fst t \<in> set actions) tuples'"
proof (induction "case explicit_arg of None \<Rightarrow> 0 | Some ea \<Rightarrow> Suc (length ea)"
       arbitrary: a option_string sep explicit_arg tuples rule: less_induct)
  case less
  note eq = less.prems(1) [unfolded optional_tuples.simps
      [of actions arg_strings pattern i a option_string sep explicit_arg tuples]]
  show ?case
  proof (cases explicit_arg)
    case None
    with eq less.prems(2,3) show ?thesis
      by (auto split: sum.splits)
  next
    case (Some ea)
    have IH: "\<And>a' os' sep' ea' tuples2.
       optional_tuples actions arg_strings pattern i a' os' sep' ea' tuples2
         = Inr (tuples', ex, n) \<Longrightarrow>
       (case ea' of None \<Rightarrow> 0 | Some e \<Rightarrow> Suc (length e)) < Suc (length ea) \<Longrightarrow>
       a' \<in> set actions \<Longrightarrow> list_all (\<lambda>t. fst t \<in> set actions) tuples2 \<Longrightarrow>
       list_all (\<lambda>t. fst t \<in> set actions) tuples'"
      using less.hyps by (simp add: Some)
    from eq less.prems(2,3) show ?thesis
      unfolding Some
      by (auto split: sum.splits list.splits if_splits option.splits
               dest!: option_string_actions_mem elim!: IH simp: neq_Nil_conv)
  qed
qed

lemma option_at_mem: "option_at indices i = Some t \<Longrightarrow> Some t \<in> set indices"
proof -
  assume a: "option_at indices i = Some t"
  then have "i < length indices" and "indices ! i = Some t"
    by (simp_all add: option_at_def split: if_splits)
  then show ?thesis by (metis nth_mem)
qed

lemma consume_optional_inv:
  assumes "preserved actions Inv" "state_inv actions Inv st" "indices_in actions indices"
    and "consume_optional actions arg_strings indices pattern st i = Inr (st', n)"
  shows "state_inv actions Inv st'"
proof -
  from assms(4) obtain oa os sep ea where
    at: "option_at indices i = Some (oa, os, sep, ea)"
    by (auto simp: consume_optional_def split: option.splits)
  show ?thesis
  proof (cases oa)
    case None
    with assms(4) assms(2) at show ?thesis
      by (auto simp: consume_optional_def state_inv_def)
  next
    case (Some a)
    from option_at_mem [OF at] assms(3) have a: "a \<in> set actions"
      unfolding indices_in_def Some by blast
    from assms(4) at Some obtain tuples ex where
      ot: "optional_tuples actions arg_strings pattern i a os sep ea [] = Inr (tuples, ex, n)"
      and ta: "take_actions (st\<lparr> extras := extras st @ ex \<rparr>) tuples = Inr st'"
      by (auto simp: consume_optional_def split: sum.splits)
    from optional_tuples_mem [OF ot a] have "list_all (\<lambda>t. fst t \<in> set actions) tuples" by simp
    moreover from assms(2) have "state_inv actions Inv (st\<lparr> extras := extras st @ ex \<rparr>)"
      by (simp add: state_inv_def)
    ultimately show ?thesis
      using take_actions_inv [OF assms(1) _ _ ta] by blast
  qed
qed


lemma loop_body_inv:
  assumes "preserved actions Inv" "indices_in actions indices" "state_inv actions Inv st"
    and "loop_body actions arg_strings indices pattern st i nxt = Inr (st', j)"
  shows "state_inv actions Inv st'"
proof (cases "i \<noteq> nxt")
  case False
  with assms(4) obtain n where
    "consume_optional actions arg_strings indices pattern st i = Inr (st', n)"
    by (auto simp: loop_body_def split: sum.splits)
  from consume_optional_inv [OF assms(1) assms(3) assms(2) this] show ?thesis .
next
  case True
  with assms(4) obtain st1 pend where
    cp: "consume_positionals arg_strings pattern st i = Inr (st1, pend)"
    by (auto simp: loop_body_def split: sum.splits)
  from consume_positionals_inv [OF assms(1) assms(3) cp] have inv1: "state_inv actions Inv st1" .
  show ?thesis
  proof (cases "pend > i")
    case True
    with assms(4) cp \<open>i \<noteq> nxt\<close> inv1 show ?thesis
      by (simp add: loop_body_def)
  next
    case False
    define st1' where
      "st1' = st1\<lparr> extras := extras st1 @ take (nxt - i) (drop i arg_strings) \<rparr>"
    from False assms(4) cp \<open>i \<noteq> nxt\<close> obtain n where
      co: "consume_optional actions arg_strings indices pattern st1' nxt = Inr (st', n)"
      by (auto simp: loop_body_def st1'_def split: sum.splits)
    from inv1 have "state_inv actions Inv st1'"
      by (simp add: state_inv_def st1'_def)
    from consume_optional_inv [OF assms(1) this assms(2) co] show ?thesis .
  qed
qed

lemma consume_loop_inv:
  assumes "preserved actions Inv" "indices_in actions indices"
  shows "state_inv actions Inv st \<Longrightarrow>
         consume_loop actions arg_strings indices pattern st i = Inr (st', j) \<Longrightarrow>
         state_inv actions Inv st'"
  using assms
proof (induction actions arg_strings indices pattern st i rule: consume_loop.induct)
  case (1 actions arg_strings indices pattern st start_index)
  show ?case
  proof (cases "filter (\<lambda>i. start_index \<le> i) (option_indices_from 0 indices)")
    case Nil
    with "1.prems"(1,2) show ?thesis
      by (simp add: consume_loop.simps [of actions arg_strings indices pattern st start_index])
  next
    case (Cons k ks)
    with "1.prems"(2) obtain st1 i1 where
      body: "loop_body actions arg_strings indices pattern st start_index (fold min ks k)
               = Inr (st1, i1)"
      and rest: "consume_loop actions arg_strings indices pattern st1 i1 = Inr (st', j)"
      by (auto simp: consume_loop.simps [of actions arg_strings indices pattern st start_index]
               split: sum.splits)
    from loop_body_inv [OF "1.prems"(3,4) "1.prems"(1) body]
    have "state_inv actions Inv st1" .
    from "1.IH" [OF Cons body refl this rest "1.prems"(3,4)] show ?thesis .
  qed
qed

lemma classify_indices_in:
  "classify actions args = Inr (indices, pattern) \<Longrightarrow> indices_in actions indices"
  unfolding indices_in_def using classify_mem by blast

lemma parse_known_args_inv:
  assumes "preserved actions Inv" "Inv (initial_namespace actions Map.empty) []"
    and "parse_known_args actions args = Inr (ns, argv)"
  shows "\<exists>seen. Inv ns seen \<and> (\<forall>a \<in> set actions. required a \<longrightarrow> a \<in> set seen)"
proof -
  define st0 where "st0 = \<lparr> namespace = initial_namespace actions Map.empty, seen_actions = [],
                    positionals = get_positional_actions actions, extras = [] \<rparr>"
  from assms(3) obtain indices pattern st i st' j where
    cl: "classify actions args = Inr (indices, pattern)"
    and lp: "consume_loop actions args indices pattern st0 0 = Inr (st, i)"
    and cp: "consume_positionals args pattern st i = Inr (st', j)"
    and req: "map dest (filter (\<lambda>a. a \<notin> set (seen_actions st') \<and> required a) actions) = []"
    and ns: "ns = namespace st'"
    by (auto simp: parse_known_args_def st0_def Let_def split: sum.splits if_splits)
  have "state_inv actions Inv st0"
    using assms(2) by (auto simp: state_inv_def st0_def get_positional_actions_def)
  from consume_loop_inv [OF assms(1) classify_indices_in [OF cl] this lp]
  have "state_inv actions Inv st" .
  from consume_positionals_inv [OF assms(1) this cp] have "state_inv actions Inv st'" .
  then have "Inv ns (seen_actions st')"
    by (simp add: state_inv_def ns)
  moreover from req have "\<forall>a \<in> set actions. required a \<longrightarrow> a \<in> set (seen_actions st')"
    by (auto simp: filter_empty_conv)
  ultimately show ?thesis by blast
qed


section \<open>The output file name is checked before anything is plotted\<close>

text \<open>
  C2. When the arguments parse and \<open>check_valid_png\<close> returns \<open>-1\<close> for the parsed
  output file name, either handler returns normally and leaves the world as it was:
  no figure is built, no file is written, nothing is displayed.
\<close>

theorem invalid_extension_returns_early:
  "(parse_args (show_dist_parser (get_numericals (heap w data))
                  (columns_values (heap w data))) args = Inr ns \<and>
    check_valid_png (attr ns ''outfile'') = Inr (- 1) \<longrightarrow>
    show_dist get_numericals check_valid_png w data args = (Inr (), w)) \<and>
   (parse_args (show_biv_dist_parser (get_numericals (heap w data))
                  (columns_values (heap w data))) args = Inr ns \<and>
    check_valid_png (attr ns ''outfile'') = Inr (- 1) \<longrightarrow>
    show_biv_dist get_numericals check_valid_png w data args = (Inr (), w))"
  by (simp add: show_dist_def show_biv_dist_def)

theorem invalid_extension_returns_early_witness:
  "show_dist numeric_columns png_only example_world 0 [''age'', ''-o'', ''plot.txt'']
     = (Inr (), example_world) \<and>
   show_biv_dist numeric_columns png_only example_world 0
     [''age'', ''height'', ''-o'', ''plot.txt'']
     = (Inr (), example_world)"
proof -
  have "case parse_args (show_dist_parser (numeric_columns (heap example_world 0))
                           (columns_values (heap example_world 0)))
               [''age'', ''-o'', ''plot.txt''] of
          Inl e \<Rightarrow> False
        | Inr ns \<Rightarrow> png_only (attr ns ''outfile'') = Inr (- 1)"
    by code_simp
  then obtain ns1 where
    "parse_args (show_dist_parser (numeric_columns (heap example_world 0))
                   (columns_values (heap example_world 0)))
       [''age'', ''-o'', ''plot.txt''] = Inr ns1"
    and "png_only (attr ns1 ''outfile'') = Inr (- 1)"
    by (auto split: sum.splits)
  with invalid_extension_returns_early
         [of numeric_columns example_world 0 "[''age'', ''-o'', ''plot.txt'']" ns1 png_only]
  have u: "show_dist numeric_columns png_only example_world 0 [''age'', ''-o'', ''plot.txt'']
             = (Inr (), example_world)"
    by blast
  have "case parse_args (show_biv_dist_parser (numeric_columns (heap example_world 0))
                           (columns_values (heap example_world 0)))
               [''age'', ''height'', ''-o'', ''plot.txt''] of
          Inl e \<Rightarrow> False
        | Inr ns \<Rightarrow> png_only (attr ns ''outfile'') = Inr (- 1)"
    by code_simp
  then obtain ns2 where
    "parse_args (show_biv_dist_parser (numeric_columns (heap example_world 0))
                   (columns_values (heap example_world 0)))
       [''age'', ''height'', ''-o'', ''plot.txt''] = Inr ns2"
    and "png_only (attr ns2 ''outfile'') = Inr (- 1)"
    by (auto split: sum.splits)
  with invalid_extension_returns_early
         [of numeric_columns example_world 0 "[''age'', ''height'', ''-o'', ''plot.txt'']"
             ns2 png_only]
  have "show_biv_dist numeric_columns png_only example_world 0
          [''age'', ''height'', ''-o'', ''plot.txt''] = (Inr (), example_world)"
    by blast
  with u show ?thesis by simp
qed

section \<open>The parser without choices is followed by the parser with choices\<close>

lemma drop_choices_fields [simp]:
  "option_strings (drop_choices a) = option_strings a"
  "dest (drop_choices a) = dest a"
  "nargs (drop_choices a) = nargs a"
  "const (drop_choices a) = const a"
  "default_value (drop_choices a) = default_value a"
  "required (drop_choices a) = required a"
  "action_class (drop_choices a) = action_class a"
  "choices (drop_choices a) = None"
  by (simp_all add: drop_choices_def)

lemma get_nargs_pattern_drop [simp]:
  "get_nargs_pattern (drop_choices a) = get_nargs_pattern a"
  by (simp add: get_nargs_pattern_def)

lemma match_argument_drop [simp]:
  "match_argument (drop_choices a) p = match_argument a p"
  by (simp add: match_argument_def split: list.splits)

lemma match_partial_from_drop:
  "match_partial_from n (map drop_choices actions) p = match_partial_from n actions p"
  by (induction n) (simp_all add: take_map comp_def split: list.splits)

lemma match_arguments_partial_drop [simp]:
  "match_arguments_partial (map drop_choices actions) p = match_arguments_partial actions p"
  by (simp add: match_arguments_partial_def match_partial_from_drop)

lemma option_string_actions_drop:
  "option_string_actions (without_choices actions)
     = map (\<lambda>(s, a). (s, drop_choices a)) (option_string_actions actions)"
  by (simp add: option_string_actions_def without_choices_def map_concat comp_def)

lemma map_of_option_string_actions_drop:
  "map_of (option_string_actions (without_choices actions)) s
     = map_option drop_choices (map_of (option_string_actions actions) s)"
  by (simp add: option_string_actions_drop map_of_map)

lemma get_option_tuples_drop:
  "get_option_tuples (without_choices actions) s = map lift_tuple (get_option_tuples actions s)"
  by (simp add: get_option_tuples_def option_string_actions_drop lift_tuple_def map_concat
        comp_def case_prod_unfold if_distrib [of "map f" for f]
      split: list.splits prod.splits cong: if_cong)

lemma parse_optional_drop:
  "parse_optional (without_choices actions) s
     = map_sum id (map_option lift_tuple) (parse_optional actions s)"
  by (simp add: parse_optional_def map_of_option_string_actions_drop get_option_tuples_drop
        lift_tuple_def case_prod_unfold comp_def
      split: option.splits list.splits prod.splits)

lemma classify_drop:
  "classify (without_choices actions) args
     = map_sum id (\<lambda>(indices, pattern). (map (map_option lift_tuple) indices, pattern))
         (classify actions args)"
  by (induction args)
     (auto simp: parse_optional_drop split: sum.splits prod.splits option.splits)

lemma check_value_cases: "check_value a v = Inr () \<or> rejected (check_value a v)"
  by (simp add: check_value_def rejected_def split: option.splits pyval.splits)

lemma check_values_cases: "check_values a vs = Inr () \<or> rejected (check_values a vs)"
proof (induction vs)
  case Nil
  then show ?case by simp
next
  case (Cons v vs)
  from check_value_cases [of a "PStr v"] Cons show ?case
    by (auto simp: rejected_def split: sum.splits)
qed

lemma check_value_drop [simp]: "check_value (drop_choices a) v = Inr ()"
  by (simp add: check_value_def)

lemma check_values_drop [simp]: "check_values (drop_choices a) vs = Inr ()"
  by (induction vs) simp_all

lemma get_values_sim:
  assumes "get_values (drop_choices a) args = Inr v"
  shows "get_values a args = Inr v \<or> rejected (get_values a args)"
proof -
  define xs where "xs = (if option_strings a = [] then remove1 ''--'' args else args)"
  note g1 = get_values_def [of a args, unfolded Let_def, folded xs_def]
  note g2 = assms [unfolded get_values_def Let_def drop_choices_fields, folded xs_def]
  consider (opt) "xs = [] \<and> nargs a = OPTIONAL"
    | (zom) "\<not> (xs = [] \<and> nargs a = OPTIONAL)"
            "xs = [] \<and> nargs a = ZERO_OR_MORE \<and> option_strings a = []"
    | (one) "\<not> (xs = [] \<and> nargs a = OPTIONAL)"
            "\<not> (xs = [] \<and> nargs a = ZERO_OR_MORE \<and> option_strings a = [])"
            "length xs = 1 \<and> (nargs a = NargsNone \<or> nargs a = OPTIONAL)"
    | (many) "\<not> (xs = [] \<and> nargs a = OPTIONAL)"
            "\<not> (xs = [] \<and> nargs a = ZERO_OR_MORE \<and> option_strings a = [])"
            "\<not> (length xs = 1 \<and> (nargs a = NargsNone \<or> nargs a = OPTIONAL))"
    by blast
  then show ?thesis
  proof cases
    case opt
    from opt g2 check_value_cases [of a v] show ?thesis
      unfolding g1 rejected_def
      by (auto split: pyval.splits if_splits)
  next
    case zom
    from zom g2 check_value_cases [of a v] show ?thesis
      unfolding g1 rejected_def
      by (auto split: if_splits)
  next
    case one
    from one g2 check_value_cases [of a v] show ?thesis
      unfolding g1 rejected_def
      by (auto split: if_splits)
  next
    case many
    from many g2 check_values_cases [of a xs] show ?thesis
      unfolding g1 rejected_def
      by (auto split: if_splits)
  qed
qed

lemma take_action_sim:
  assumes "take_action (lift_state st) (drop_choices a) args = Inr st2"
  shows "follows (take_action st a args) lift_state st2"
proof -
  from assms obtain v where v: "get_values (drop_choices a) args = Inr v"
    and cls: "action_class a = StoreAction"
    and st2: "st2 = (lift_state st)\<lparr> seen_actions := drop_choices a # seen_actions (lift_state st),
                         namespace := (namespace (lift_state st))(dest a \<mapsto> v) \<rparr>"
    by (auto simp: take_action_def split: sum.splits action_class.splits)
  from get_values_sim [OF v] show ?thesis
  proof
    assume "get_values a args = Inr v"
    with cls st2 show ?thesis
      by (simp add: follows_def take_action_def lift_state_def)
  next
    assume "rejected (get_values a args)"
    then show ?thesis
      by (auto simp: follows_def rejected_def take_action_def)
  qed
qed

lemma take_actions_sim:
  "take_actions (lift_state st) (map (apfst drop_choices) tuples) = Inr st2 \<Longrightarrow>
   follows (take_actions st tuples) lift_state st2"
proof (induction tuples arbitrary: st)
  case Nil
  then show ?case by (simp add: follows_def)
next
  case (Cons t tuples)
  obtain a args where t: "t = (a, args)" by (cases t)
  from Cons.prems obtain s1 where
    s1: "take_action (lift_state st) (drop_choices a) args = Inr s1"
    and rest: "take_actions s1 (map (apfst drop_choices) tuples) = Inr st2"
    by (auto simp: t split: sum.splits)
  from take_action_sim [OF s1] show ?case
    unfolding follows_def
  proof
    assume "\<exists>x. take_action st a args = Inr x \<and> lift_state x = s1"
    then obtain st1 where a1: "take_action st a args = Inr st1" and l1: "lift_state st1 = s1"
      by blast
    from Cons.IH [of st1] rest l1 have "follows (take_actions st1 tuples) lift_state st2"
      by simp
    with a1 show "(\<exists>x. take_actions st (t # tuples) = Inr x \<and> lift_state x = st2)
                  \<or> rejected (take_actions st (t # tuples))"
      by (simp add: t follows_def)
  next
    assume "rejected (take_action st a args)"
    then show "(\<exists>x. take_actions st (t # tuples) = Inr x \<and> lift_state x = st2)
               \<or> rejected (take_actions st (t # tuples))"
      by (auto simp: t rejected_def)
  qed
qed

lemma take_positionals_sim:
  "take_positionals (lift_state st) arg_strings i (map (apfst drop_choices) zs) = Inr (st2, j) \<Longrightarrow>
   follows (take_positionals st arg_strings i zs) (apfst lift_state) (st2, j)"
proof (induction zs arbitrary: st i)
  case Nil
  then show ?case by (simp add: follows_def)
next
  case (Cons z zs)
  obtain a n where z: "z = (a, n)" by (cases z)
  from Cons.prems obtain s1 where
    s1: "take_action (lift_state st) (drop_choices a) (take n (drop i arg_strings)) = Inr s1"
    and rest: "take_positionals s1 arg_strings (i + n) (map (apfst drop_choices) zs) = Inr (st2, j)"
    by (auto simp: z split: sum.splits)
  from take_action_sim [OF s1] show ?case
    unfolding follows_def
  proof
    assume "\<exists>x. take_action st a (take n (drop i arg_strings)) = Inr x \<and> lift_state x = s1"
    then obtain st1 where a1: "take_action st a (take n (drop i arg_strings)) = Inr st1"
      and l1: "lift_state st1 = s1"
      by blast
    from Cons.IH [of st1 "i + n"] rest l1
    have "follows (take_positionals st1 arg_strings (i + n) zs) (apfst lift_state) (st2, j)"
      by simp
    with a1 show "(\<exists>x. take_positionals st arg_strings i (z # zs) = Inr x
                       \<and> apfst lift_state x = (st2, j))
                  \<or> rejected (take_positionals st arg_strings i (z # zs))"
      by (simp add: z follows_def)
  next
    assume "rejected (take_action st a (take n (drop i arg_strings)))"
    then show "(\<exists>x. take_positionals st arg_strings i (z # zs) = Inr x
                    \<and> apfst lift_state x = (st2, j))
               \<or> rejected (take_positionals st arg_strings i (z # zs))"
      by (auto simp: z rejected_def)
  qed
qed

lemma lift_state_fields [simp]:
  "namespace (lift_state st) = namespace st"
  "extras (lift_state st) = extras st"
  "seen_actions (lift_state st) = map drop_choices (seen_actions st)"
  "positionals (lift_state st) = map drop_choices (positionals st)"
  by (simp_all add: lift_state_def)

lemma followsE:
  assumes "follows r f y"
  obtains (ok) x where "r = Inr x" "f x = y" | (rej) "rejected r"
  using assms unfolding follows_def by blast

lemma consume_positionals_sim:
  assumes "consume_positionals arg_strings pattern (lift_state st) i = Inr (st2, j)"
  shows "follows (consume_positionals arg_strings pattern st i) (apfst lift_state) (st2, j)"
proof -
  define counts where "counts = match_arguments_partial (positionals st) (drop i pattern)"
  from assms obtain s1 where
    tp: "take_positionals (lift_state st) arg_strings i
           (map (apfst drop_choices) (zip (positionals st) counts)) = Inr (s1, j)"
    and st2: "st2 = s1\<lparr> positionals := drop (length counts) (positionals s1) \<rparr>"
    by (auto simp: consume_positionals_def counts_def Let_def zip_map1 apfst_def map_prod_def
                   case_prod_unfold
             split: sum.splits)
  from take_positionals_sim [OF tp] show ?thesis
  proof (cases rule: followsE)
    case (ok x)
    obtain st1 j1 where x: "x = (st1, j1)" by (cases x)
    with ok have tp1: "take_positionals st arg_strings i (zip (positionals st) counts)
                         = Inr (st1, j)"
      and l1: "s1 = lift_state st1"
      by auto
    show ?thesis
      by (simp add: follows_def consume_positionals_def counts_def [symmetric] st2 tp1 l1
            lift_state_def drop_map)
  next
    case rej
    then show ?thesis
      by (auto simp: follows_def rejected_def consume_positionals_def counts_def [symmetric])
  qed
qed

lemma optional_tuples_None:
  "optional_tuples actions arg_strings pattern i a option_string sep None tuples =
     (case match_argument a (drop (i + 1) pattern) of
        Inl e \<Rightarrow> Inl e
      | Inr n \<Rightarrow> Inr (tuples @ [(a, take n (drop (i + 1) arg_strings))], [], n))"
  by (subst optional_tuples.simps) simp

lemmas optional_tuples_Some =
  optional_tuples.simps [of _ _ _ _ _ _ _ "Some ea" for ea, unfolded option.case]

lemma optional_tuples_drop:
  "optional_tuples (without_choices actions) arg_strings pattern i (drop_choices a)
     option_string sep explicit_arg (map (apfst drop_choices) tuples)
   = map_sum id (\<lambda>(ts, ex, n). (map (apfst drop_choices) ts, ex, n))
       (optional_tuples actions arg_strings pattern i a option_string sep explicit_arg tuples)"
proof (induction "case explicit_arg of None \<Rightarrow> 0 | Some ea \<Rightarrow> Suc (length ea)"
       arbitrary: a option_string sep explicit_arg tuples rule: less_induct)
  case less
  show ?case
  proof (cases explicit_arg)
    case None
    then show ?thesis
      by (simp add: optional_tuples_None split: sum.splits)
  next
    case (Some ea)
    have IH: "\<And>a' os' sep' ea'.
       (case ea' of None \<Rightarrow> 0 | Some e \<Rightarrow> Suc (length e)) < Suc (length ea) \<Longrightarrow>
       optional_tuples (without_choices actions) arg_strings pattern i (drop_choices a')
         os' sep' ea' (map (apfst drop_choices) tuples @ [(drop_choices a, [])])
       = map_sum id (\<lambda>(ts, ex, n). (map (apfst drop_choices) ts, ex, n))
           (optional_tuples actions arg_strings pattern i a' os' sep' ea'
              (tuples @ [(a, [])]))"
    proof -
      fix a' os' sep' and ea' :: "string option"
      assume "(case ea' of None \<Rightarrow> 0 | Some e \<Rightarrow> Suc (length e)) < Suc (length ea)"
      with less.hyps [of ea' a' os' sep' "tuples @ [(a, [])]"]
      show "optional_tuples (without_choices actions) arg_strings pattern i (drop_choices a')
              os' sep' ea' (map (apfst drop_choices) tuples @ [(drop_choices a, [])])
            = map_sum id (\<lambda>(ts, ex, n). (map (apfst drop_choices) ts, ex, n))
                (optional_tuples actions arg_strings pattern i a' os' sep' ea'
                   (tuples @ [(a, [])]))"
        by (simp add: Some)
    qed
    show ?thesis
      unfolding Some optional_tuples_Some [of _ _ _ _ _ _ _ ea]
      apply (simp only: map_of_option_string_actions_drop match_argument_drop
                        drop_choices_fields)
      apply (auto split: sum.splits list.splits option.splits simp: IH neq_Nil_conv)
      done
  qed
qed


lemma option_at_map:
  "option_at (map (map_option f) indices) i = map_option f (option_at indices i)"
  by (simp add: option_at_def)

lemma lift_state_extras:
  "lift_state (st\<lparr> extras := e \<rparr>) = (lift_state st)\<lparr> extras := e \<rparr>"
  by (simp add: lift_state_def)

lemma consume_optional_sim:
  assumes "consume_optional (without_choices actions) arg_strings
             (map (map_option lift_tuple) indices) pattern (lift_state st) i = Inr (st2, n)"
  shows "follows (consume_optional actions arg_strings indices pattern st i)
           (apfst lift_state) (st2, n)"
proof -
  from assms obtain oa os sep ea where
    at: "option_at indices i = Some (oa, os, sep, ea)"
    by (auto simp: consume_optional_def option_at_map split: option.splits)
  show ?thesis
  proof (cases oa)
    case None
    with assms at show ?thesis
      by (auto simp: consume_optional_def option_at_map lift_tuple_def follows_def
            lift_state_def)
  next
    case (Some a)
    from assms at Some obtain tuples2 ex where
      ot: "optional_tuples (without_choices actions) arg_strings pattern i (drop_choices a)
             os sep ea (map (apfst drop_choices) []) = Inr (tuples2, ex, n)"
      and ta: "take_actions ((lift_state st)\<lparr> extras := extras st @ ex \<rparr>) tuples2 = Inr st2"
      by (auto simp: consume_optional_def option_at_map lift_tuple_def split: sum.splits)
    from ot [unfolded optional_tuples_drop] obtain tuples where
      ot1: "optional_tuples actions arg_strings pattern i a os sep ea [] = Inr (tuples, ex, n)"
      and t2: "tuples2 = map (apfst drop_choices) tuples"
      by (cases "optional_tuples actions arg_strings pattern i a os sep ea []") auto
    from ta have "take_actions (lift_state (st\<lparr> extras := extras st @ ex \<rparr>))
                    (map (apfst drop_choices) tuples) = Inr st2"
      by (simp add: t2 lift_state_extras)
    from take_actions_sim [OF this] show ?thesis
    proof (cases rule: followsE)
      case (ok x)
      with at Some ot1 show ?thesis
        by (simp add: follows_def consume_optional_def)
    next
      case rej
      with at Some ot1 show ?thesis
        by (auto simp: follows_def rejected_def consume_optional_def)
    qed
  qed
qed

lemma loop_body_sim:
  assumes "loop_body (without_choices actions) arg_strings
             (map (map_option lift_tuple) indices) pattern (lift_state st) i nxt = Inr (st2, j)"
  shows "follows (loop_body actions arg_strings indices pattern st i nxt)
           (apfst lift_state) (st2, j)"
proof (cases "i \<noteq> nxt")
  case False
  with assms obtain n where
    co: "consume_optional (without_choices actions) arg_strings
           (map (map_option lift_tuple) indices) pattern (lift_state st) i = Inr (st2, n)"
    and j: "j = i + 1 + n"
    by (auto simp: loop_body_def split: sum.splits)
  from consume_optional_sim [OF co] show ?thesis
  proof (cases rule: followsE)
    case (ok x)
    with False j show ?thesis
      by (cases x) (auto simp: follows_def loop_body_def)
  next
    case rej
    with False show ?thesis
      by (auto simp: follows_def rejected_def loop_body_def)
  qed
next
  case True
  with assms obtain s1 pend where
    cp: "consume_positionals arg_strings pattern (lift_state st) i = Inr (s1, pend)"
    by (auto simp: loop_body_def split: sum.splits)
  from consume_positionals_sim [OF cp] show ?thesis
  proof (cases rule: followsE)
    case rej
    with True show ?thesis
      by (auto simp: follows_def rejected_def loop_body_def)
  next
    case (ok x)
    then obtain st1 where cp1: "consume_positionals arg_strings pattern st i = Inr (st1, pend)"
      and l1: "s1 = lift_state st1"
      by (cases x) auto
    show ?thesis
    proof (cases "pend > i")
      case True
      with assms cp cp1 l1 \<open>i \<noteq> nxt\<close> show ?thesis
        by (simp add: loop_body_def follows_def)
    next
      case False
      define e where "e = take (nxt - i) (drop i arg_strings)"
      from False assms cp \<open>i \<noteq> nxt\<close> obtain n where
        co: "consume_optional (without_choices actions) arg_strings
               (map (map_option lift_tuple) indices) pattern
               (lift_state (st1\<lparr> extras := extras st1 @ e \<rparr>)) nxt = Inr (st2, n)"
        and j: "j = nxt + 1 + n"
        by (auto simp: loop_body_def l1 e_def lift_state_extras split: sum.splits)
      from consume_optional_sim [OF co] show ?thesis
      proof (cases rule: followsE)
        case (ok y)
        with False cp1 \<open>i \<noteq> nxt\<close> j show ?thesis
          by (cases y) (auto simp: follows_def loop_body_def e_def)
      next
        case rej
        with False cp1 \<open>i \<noteq> nxt\<close> show ?thesis
          by (auto simp: follows_def rejected_def loop_body_def e_def)
      qed
    qed
  qed
qed

lemma option_indices_from_map:
  "option_indices_from k (map (map_option f) indices) = option_indices_from k indices"
  by (induction indices arbitrary: k) simp_all

lemma consume_loop_sim:
  "consume_loop (without_choices actions) arg_strings (map (map_option lift_tuple) indices)
     pattern (lift_state st) i = Inr (st2, j) \<Longrightarrow>
   follows (consume_loop actions arg_strings indices pattern st i) (apfst lift_state) (st2, j)"
proof (induction actions arg_strings indices pattern st i rule: consume_loop.induct)
  case (1 actions arg_strings indices pattern st start_index)
  note unf = consume_loop.simps [of actions arg_strings indices pattern st start_index]
  note unf2 = "1.prems" [unfolded consume_loop.simps
      [of "without_choices actions" arg_strings "map (map_option lift_tuple) indices"
          pattern "lift_state st" start_index] option_indices_from_map]
  show ?case
  proof (cases "filter (\<lambda>i. start_index \<le> i) (option_indices_from 0 indices)")
    case Nil
    with unf2 have "st2 = lift_state st" and "j = start_index"
      by simp_all
    moreover from Nil have
      "consume_loop actions arg_strings indices pattern st start_index = Inr (st, start_index)"
      by (simp add: unf)
    ultimately show ?thesis
      by (simp add: follows_def)
  next
    case (Cons k ks)
    with unf2 obtain s1 i1 where
      body2: "loop_body (without_choices actions) arg_strings
                (map (map_option lift_tuple) indices) pattern (lift_state st) start_index
                (fold min ks k) = Inr (s1, i1)"
      and rest2: "consume_loop (without_choices actions) arg_strings
                    (map (map_option lift_tuple) indices) pattern s1 i1 = Inr (st2, j)"
      by (auto split: sum.splits)
    from loop_body_sim [OF body2] show ?thesis
    proof (cases rule: followsE)
      case rej
      with Cons show ?thesis
        by (auto simp: unf follows_def rejected_def)
    next
      case (ok x)
      then obtain st1 where
        body: "loop_body actions arg_strings indices pattern st start_index (fold min ks k)
                 = Inr (st1, i1)"
        and l1: "s1 = lift_state st1"
        by (cases x) auto
      from "1.IH" [OF Cons body refl rest2 [unfolded l1]]
      have "follows (consume_loop actions arg_strings indices pattern st1 i1)
              (apfst lift_state) (st2, j)" .
      with Cons body show ?thesis
        by (simp add: unf follows_def)
    qed
  qed
qed

lemma initial_namespace_drop:
  "initial_namespace (without_choices actions) ns = initial_namespace actions ns"
  by (induction actions arbitrary: ns) (simp_all add: without_choices_def)

lemma get_positional_actions_drop:
  "get_positional_actions (without_choices actions)
     = map drop_choices (get_positional_actions actions)"
  by (simp add: get_positional_actions_def without_choices_def filter_map comp_def)

lemma inj_on_drop_choices:
  assumes "distinct (map dest actions)"
  shows "inj_on drop_choices (set actions)"
proof (rule inj_onI)
  fix a b
  assume a: "a \<in> set actions" and b: "b \<in> set actions"
    and eq: "drop_choices a = drop_choices b"
  from eq have "dest (drop_choices a) = dest (drop_choices b)" by simp
  then have "dest a = dest b" by simp
  moreover from assms have "inj_on dest (set actions)"
    by (simp add: distinct_map)
  ultimately show "a = b" using a b by (simp add: inj_on_def)
qed

lemma seen_subset_preserved:
  "preserved actions (\<lambda>ns seen. set seen \<subseteq> set actions)"
  by (simp add: preserved_def)

lemma required_filter_drop:
  assumes "inj_on drop_choices (set actions)" "set seen \<subseteq> set actions"
  shows "map dest (filter (\<lambda>a. a \<notin> set (map drop_choices seen) \<and> required a)
                     (without_choices actions))
         = map dest (filter (\<lambda>a. a \<notin> set seen \<and> required a) actions)"
proof -
  have "\<And>a. a \<in> set actions \<Longrightarrow>
          (drop_choices a \<in> drop_choices ` set seen) = (a \<in> set seen)"
    using assms by (meson inj_on_image_mem_iff)
  then have "filter ((\<lambda>a. a \<notin> set (map drop_choices seen) \<and> required a) \<circ> drop_choices) actions
        = filter (\<lambda>a. a \<notin> set seen \<and> required a) actions"
    by (intro filter_cong) auto
  then show ?thesis
    by (simp add: without_choices_def filter_map comp_def)
qed

lemma parse_known_args_sim:
  assumes "distinct (map dest actions)"
    and "parse_known_args (without_choices actions) args = Inr (ns, argv)"
  shows "parse_known_args actions args = Inr (ns, argv)
         \<or> rejected (parse_known_args actions args)"
proof -
  define st0 where "st0 = \<lparr> namespace = initial_namespace actions Map.empty, seen_actions = [],
                    positionals = get_positional_actions actions, extras = [] \<rparr>"
  have st0': "\<lparr> namespace = initial_namespace (without_choices actions) Map.empty,
                seen_actions = [],
                positionals = get_positional_actions (without_choices actions),
                extras = [] \<rparr> = lift_state st0"
    by (simp add: st0_def lift_state_def initial_namespace_drop get_positional_actions_drop)
  note pk2 = assms(2) [unfolded parse_known_args_def classify_drop st0']
  from pk2 obtain indices pattern where
    cl: "classify actions args = Inr (indices, pattern)"
    by (cases "classify actions args") auto
  from pk2 cl obtain s1 i s2 j where
    lp2: "consume_loop (without_choices actions) args (map (map_option lift_tuple) indices)
            pattern (lift_state st0) 0 = Inr (s1, i)"
    and cp2: "consume_positionals args pattern s1 i = Inr (s2, j)"
    and req2: "map dest (filter (\<lambda>a. a \<notin> set (seen_actions s2) \<and> required a)
                           (without_choices actions)) = []"
    and res2: "ns = namespace s2" "argv = extras s2 @ drop j args"
    by (auto simp: Let_def split: sum.splits if_splits)
  note unf = parse_known_args_def [of actions args, unfolded cl sum.case prod.case,
      folded st0_def]
  from consume_loop_sim [OF lp2] show ?thesis
  proof (cases rule: followsE)
    case rej
    then show ?thesis
      by (auto simp: unf rejected_def)
  next
    case (ok x)
    then obtain st1 where lp: "consume_loop actions args indices pattern st0 0 = Inr (st1, i)"
      and l1: "s1 = lift_state st1"
      by (cases x) auto
    from consume_positionals_sim [OF cp2 [unfolded l1]] show ?thesis
    proof (cases rule: followsE)
      case rej
      with lp show ?thesis
        by (auto simp: unf rejected_def)
    next
      case (ok y)
      then obtain st' where cp: "consume_positionals args pattern st1 i = Inr (st', j)"
        and l2: "s2 = lift_state st'"
        by (cases y) auto
      have "state_inv actions (\<lambda>ns seen. set seen \<subseteq> set actions) st0"
        by (auto simp: state_inv_def st0_def get_positional_actions_def)
      from consume_loop_inv [OF seen_subset_preserved classify_indices_in [OF cl] this lp]
      have "state_inv actions (\<lambda>ns seen. set seen \<subseteq> set actions) st1" .
      from consume_positionals_inv [OF seen_subset_preserved this cp]
      have "set (seen_actions st') \<subseteq> set actions"
        by (simp add: state_inv_def)
      from required_filter_drop [OF inj_on_drop_choices [OF assms(1)] this] req2
      have "map dest (filter (\<lambda>a. a \<notin> set (seen_actions st') \<and> required a) actions) = []"
        by (simp add: l2)
      with lp cp res2 show ?thesis
        by (simp add: unf l2)
    qed
  qed
qed

lemma parse_args_sim:
  assumes "distinct (map dest actions)"
    and "parse_args (without_choices actions) args = Inr ns"
  shows "parse_args actions args = Inr ns \<or> rejected (parse_args actions args)"
proof -
  from assms(2) have "parse_known_args (without_choices actions) args = Inr (ns, [])"
    by (auto simp: parse_args_def split: sum.splits if_splits)
  from parse_known_args_sim [OF assms(1) this] show ?thesis
    by (auto simp: parse_args_def rejected_def)
qed

section \<open>What the parser accepts\<close>

lemma check_values_set:
  "check_values a vs = Inr u \<Longrightarrow> choices a = Some cs \<Longrightarrow> set vs \<subseteq> set cs"
  by (induction vs) (auto simp: check_value_def split: sum.splits if_splits)

lemma get_values_str_checked:
  assumes "get_values a args = Inr (PStr s)" "choices a = Some cs"
  shows "s \<in> set cs"
proof -
  define xs where "xs = (if option_strings a = [] then remove1 ''--'' args else args)"
  note g = assms(1) [unfolded get_values_def Let_def, folded xs_def]
  from g assms(2) show ?thesis
    by (auto simp: check_value_def split: if_splits pyval.splits sum.splits)
qed

lemma get_values_list_checked:
  assumes "get_values a args = Inr (PList l)" "choices a = Some cs" "nargs a \<noteq> OPTIONAL"
  shows "set l \<subseteq> set cs"
proof -
  define xs where "xs = (if option_strings a = [] then remove1 ''--'' args else args)"
  note g = assms(1) [unfolded get_values_def Let_def, folded xs_def]
  from g assms(2,3) show ?thesis
    by (auto simp: check_value_def split: if_splits pyval.splits sum.splits
             dest: check_values_set)
qed

lemma get_values_zero_or_more_optional:
  assumes "get_values a args = Inr v" "nargs a = ZERO_OR_MORE" "option_strings a \<noteq> []"
  shows "\<exists>l. v = PList l"
  using assms by (auto simp: get_values_def Let_def split: if_splits sum.splits)

lemma dist_names_ok_preserved:
  "preserved (show_dist_parser nums cols) (dist_names_ok nums cols)"
  unfolding preserved_def
proof (intro allI impI)
  fix ns seen a args v
  assume a: "a \<in> set (show_dist_parser nums cols)" and ok: "dist_names_ok nums cols ns seen"
    and gv: "get_values a args = Inr v" and cls: "action_class a = StoreAction"
  from a cls consider
      (var) "a = add_positional ''var'' NargsNone PNone (Some nums)"
    | (out) "a = add_optional [''-o'', ''--outfile''] ''outfile'' OPTIONAL (PStr ''output.png'') None"
    | (cat) "a = add_optional [''-c'', ''--categoricals''] ''categoricals'' ZERO_OR_MORE
                 (PList []) (Some cols)"
    by (auto simp: show_dist_parser_def help_action_def)
  then show "dist_names_ok nums cols (ns(dest a \<mapsto> v)) (a # seen)"
  proof cases
    case var
    with ok get_values_str_checked [OF _ _, of a args _ nums] gv show ?thesis
      by (auto simp: dist_names_ok_def add_positional_def)
  next
    case out
    with ok show ?thesis
      by (auto simp: dist_names_ok_def add_optional_def)
  next
    case cat
    from get_values_zero_or_more_optional [OF gv] cat obtain l where l: "v = PList l"
      by (auto simp: add_optional_def)
    from get_values_list_checked [OF gv [unfolded l], of cols] cat have "set l \<subseteq> set cols"
      by (simp add: add_optional_def)
    with ok cat l show ?thesis
      by (auto simp: dist_names_ok_def add_optional_def)
  qed
qed

lemma show_dist_parser_names_ok:
  assumes "parse_args (show_dist_parser nums cols) args = Inr ns"
  shows "(\<forall>v. ns ''var'' = Some (PStr v) \<longrightarrow> v \<in> set nums) \<and>
         (\<exists>l. ns ''categoricals'' = Some (PList l) \<and> set l \<subseteq> set cols)"
proof -
  from assms have pk: "parse_known_args (show_dist_parser nums cols) args = Inr (ns, [])"
    by (auto simp: parse_args_def split: sum.splits if_splits)
  have "dist_names_ok nums cols (initial_namespace (show_dist_parser nums cols) Map.empty) []"
    by (simp add: dist_names_ok_def show_dist_parser_def help_action_def add_positional_def
          add_optional_def)
  from parse_known_args_inv [OF dist_names_ok_preserved this pk] show ?thesis
    by (auto simp: dist_names_ok_def)
qed


lemma biv_names_ok_preserved:
  "preserved (show_biv_dist_parser nums cols) (biv_names_ok nums cols)"
  unfolding preserved_def
proof (intro allI impI)
  fix ns seen a args v
  assume a: "a \<in> set (show_biv_dist_parser nums cols)"
    and ok: "biv_names_ok nums cols ns seen"
    and gv: "get_values a args = Inr v" and cls: "action_class a = StoreAction"
  from a cls consider
      (v1) "a = add_positional ''v1'' NargsNone PNone (Some nums)"
    | (v2) "a = add_positional ''v2'' NargsNone PNone (Some nums)"
    | (pt) "a = add_positional ''plot_type'' OPTIONAL (PStr ''heatmap'')
                 (Some [''heatmap'', ''gaussian''])"
    | (out) "a = add_optional [''-o'', ''--outfile''] ''outfile'' OPTIONAL (PStr ''output.png'') None"
    | (cat) "a = add_optional [''-c'', ''--categoricals''] ''categoricals'' ZERO_OR_MORE
                 (PList []) (Some cols)"
    by (auto simp: show_biv_dist_parser_def help_action_def)
  then show "biv_names_ok nums cols (ns(dest a \<mapsto> v)) (a # seen)"
  proof cases
    case v1
    with ok get_values_str_checked [OF _ _, of a args _ nums] gv show ?thesis
      by (auto simp: biv_names_ok_def add_positional_def)
  next
    case v2
    with ok get_values_str_checked [OF _ _, of a args _ nums] gv show ?thesis
      by (auto simp: biv_names_ok_def add_positional_def)
  next
    case pt
    with ok get_values_str_checked [OF _ _, of a args _ "[''heatmap'', ''gaussian'']"] gv
    show ?thesis
      by (auto simp: biv_names_ok_def add_positional_def)
  next
    case out
    with ok show ?thesis
      by (auto simp: biv_names_ok_def add_optional_def)
  next
    case cat
    from get_values_zero_or_more_optional [OF gv] cat obtain l where l: "v = PList l"
      by (auto simp: add_optional_def)
    from get_values_list_checked [OF gv [unfolded l], of cols] cat have "set l \<subseteq> set cols"
      by (simp add: add_optional_def)
    with ok cat l show ?thesis
      by (auto simp: biv_names_ok_def add_optional_def)
  qed
qed

lemma show_biv_dist_parser_names_ok:
  assumes "parse_args (show_biv_dist_parser nums cols) args = Inr ns"
  shows "(\<forall>v. ns ''v1'' = Some (PStr v) \<longrightarrow> v \<in> set nums) \<and>
         (\<forall>v. ns ''v2'' = Some (PStr v) \<longrightarrow> v \<in> set nums) \<and>
         (\<forall>t. ns ''plot_type'' = Some (PStr t) \<longrightarrow> t = ''heatmap'' \<or> t = ''gaussian'') \<and>
         (\<exists>l. ns ''categoricals'' = Some (PList l) \<and> set l \<subseteq> set cols)"
proof -
  from assms have pk: "parse_known_args (show_biv_dist_parser nums cols) args = Inr (ns, [])"
    by (auto simp: parse_args_def split: sum.splits if_splits)
  have "biv_names_ok nums cols (initial_namespace (show_biv_dist_parser nums cols) Map.empty) []"
    by (simp add: biv_names_ok_def show_biv_dist_parser_def help_action_def add_positional_def
          add_optional_def)
  from parse_known_args_inv [OF biv_names_ok_preserved this pk] show ?thesis
    unfolding biv_names_ok_def by blast
qed

lemma show_dist_parser_distinct: "distinct (map dest (show_dist_parser nums cols))"
  by (simp add: show_dist_parser_def help_action_def add_positional_def add_optional_def)

lemma show_biv_dist_parser_distinct: "distinct (map dest (show_biv_dist_parser nums cols))"
  by (simp add: show_biv_dist_parser_def help_action_def add_positional_def add_optional_def)

section \<open>Names that are not valid choices are rejected by the parser\<close>

text \<open>
  C3. Take a token list that the parser without the choices restriction reads
  completely. If the name it reads for a required variable is not a numerical column,
  or the list it reads for the categoricals holds a name that is not a column, the
  parser of the handler ends with the invalid-choice usage error, the handler passes
  that error on, and the world is as before: nothing was plotted or written.
\<close>

theorem invalid_names_rejected:
  "(parse_args (without_choices (show_dist_parser (get_numericals (heap w data))
                                   (columns_values (heap w data)))) args = Inr ns \<and>
    ((\<exists>v. ns ''var'' = Some (PStr v) \<and> v \<notin> set (get_numericals (heap w data))) \<or>
     (\<exists>l. ns ''categoricals'' = Some (PList l) \<and>
          \<not> set l \<subseteq> set (columns_values (heap w data)))) \<longrightarrow>
    (\<exists>d v. parse_args (show_dist_parser (get_numericals (heap w data))
                         (columns_values (heap w data))) args
             = Inl (UsageError (InvalidChoice d v)) \<and>
           show_dist get_numericals check_valid_png w data args
             = (Inl (UsageError (InvalidChoice d v)), w))) \<and>
   (parse_args (without_choices (show_biv_dist_parser (get_numericals (heap w data))
                                   (columns_values (heap w data)))) args = Inr ns \<and>
    ((\<exists>v. ns ''v1'' = Some (PStr v) \<and> v \<notin> set (get_numericals (heap w data))) \<or>
     (\<exists>v. ns ''v2'' = Some (PStr v) \<and> v \<notin> set (get_numericals (heap w data))) \<or>
     (\<exists>l. ns ''categoricals'' = Some (PList l) \<and>
          \<not> set l \<subseteq> set (columns_values (heap w data)))) \<longrightarrow>
    (\<exists>d v. parse_args (show_biv_dist_parser (get_numericals (heap w data))
                         (columns_values (heap w data))) args
             = Inl (UsageError (InvalidChoice d v)) \<and>
           show_biv_dist get_numericals check_valid_png w data args
             = (Inl (UsageError (InvalidChoice d v)), w)))"
proof (intro conjI impI)
  let ?P = "show_dist_parser (get_numericals (heap w data)) (columns_values (heap w data))"
  assume h: "parse_args (without_choices ?P) args = Inr ns \<and>
    ((\<exists>v. ns ''var'' = Some (PStr v) \<and> v \<notin> set (get_numericals (heap w data))) \<or>
     (\<exists>l. ns ''categoricals'' = Some (PList l) \<and>
          \<not> set l \<subseteq> set (columns_values (heap w data))))"
  from parse_args_sim [OF show_dist_parser_distinct] h
  have "parse_args ?P args = Inr ns \<or> rejected (parse_args ?P args)"
    by blast
  moreover have "parse_args ?P args \<noteq> Inr ns"
    using show_dist_parser_names_ok [of _ _ args ns] h by fastforce
  ultimately obtain d v where "parse_args ?P args = Inl (UsageError (InvalidChoice d v))"
    unfolding rejected_def by blast
  then show "\<exists>d v. parse_args ?P args = Inl (UsageError (InvalidChoice d v)) \<and>
           show_dist get_numericals check_valid_png w data args
             = (Inl (UsageError (InvalidChoice d v)), w)"
    by (simp add: show_dist_def)
next
  let ?P = "show_biv_dist_parser (get_numericals (heap w data)) (columns_values (heap w data))"
  assume h: "parse_args (without_choices ?P) args = Inr ns \<and>
    ((\<exists>v. ns ''v1'' = Some (PStr v) \<and> v \<notin> set (get_numericals (heap w data))) \<or>
     (\<exists>v. ns ''v2'' = Some (PStr v) \<and> v \<notin> set (get_numericals (heap w data))) \<or>
     (\<exists>l. ns ''categoricals'' = Some (PList l) \<and>
          \<not> set l \<subseteq> set (columns_values (heap w data))))"
  from parse_args_sim [OF show_biv_dist_parser_distinct] h
  have "parse_args ?P args = Inr ns \<or> rejected (parse_args ?P args)"
    by blast
  moreover have "parse_args ?P args \<noteq> Inr ns"
    using show_biv_dist_parser_names_ok [of _ _ args ns] h by fastforce
  ultimately obtain d v where "parse_args ?P args = Inl (UsageError (InvalidChoice d v))"
    unfolding rejected_def by blast
  then show "\<exists>d v. parse_args ?P args = Inl (UsageError (InvalidChoice d v)) \<and>
           show_biv_dist get_numericals check_valid_png w data args
             = (Inl (UsageError (InvalidChoice d v)), w)"
    by (simp add: show_biv_dist_def)
qed

theorem invalid_names_rejected_witness:
  "(\<exists>d v. show_dist numeric_columns png_only example_world 0
            [''sex'', ''-c'', ''city'']
          = (Inl (UsageError (InvalidChoice d v)), example_world)) \<and>
   (\<exists>d v. show_biv_dist numeric_columns png_only example_world 0
            [''age'', ''height'', ''-c'', ''sex'', ''town'']
          = (Inl (UsageError (InvalidChoice d v)), example_world))"
proof -
  have "case parse_args (without_choices (show_dist_parser
                (numeric_columns (heap example_world 0))
                (columns_values (heap example_world 0)))) [''sex'', ''-c'', ''city''] of
          Inl e \<Rightarrow> False
        | Inr ns \<Rightarrow> ns ''var'' = Some (PStr ''sex'')
                    \<and> ''sex'' \<notin> set (numeric_columns (heap example_world 0))"
    by code_simp
  then obtain ns1 where
    "parse_args (without_choices (show_dist_parser
                (numeric_columns (heap example_world 0))
                (columns_values (heap example_world 0)))) [''sex'', ''-c'', ''city''] = Inr ns1"
    and "ns1 ''var'' = Some (PStr ''sex'')"
    and "''sex'' \<notin> set (numeric_columns (heap example_world 0))"
    by (auto split: sum.splits)
  with invalid_names_rejected
         [of numeric_columns example_world 0 "[''sex'', ''-c'', ''city'']" ns1 png_only]
  have u: "\<exists>d v. show_dist numeric_columns png_only example_world 0
                   [''sex'', ''-c'', ''city'']
                 = (Inl (UsageError (InvalidChoice d v)), example_world)"
    by blast
  have "case parse_args (without_choices (show_biv_dist_parser
                (numeric_columns (heap example_world 0))
                (columns_values (heap example_world 0))))
               [''age'', ''height'', ''-c'', ''sex'', ''town''] of
          Inl e \<Rightarrow> False
        | Inr ns \<Rightarrow> ns ''categoricals'' = Some (PList [''sex'', ''town''])
                    \<and> \<not> set [''sex'', ''town'']
                          \<subseteq> set (columns_values (heap example_world 0))"
    by code_simp
  then obtain ns2 where
    "parse_args (without_choices (show_biv_dist_parser
                (numeric_columns (heap example_world 0))
                (columns_values (heap example_world 0))))
       [''age'', ''height'', ''-c'', ''sex'', ''town''] = Inr ns2"
    and "ns2 ''categoricals'' = Some (PList [''sex'', ''town''])"
    and "\<not> set [''sex'', ''town''] \<subseteq> set (columns_values (heap example_world 0))"
    by (auto split: sum.splits)
  with invalid_names_rejected
         [of numeric_columns example_world 0
             "[''age'', ''height'', ''-c'', ''sex'', ''town'']" ns2 png_only]
  have "\<exists>d v. show_biv_dist numeric_columns png_only example_world 0
                 [''age'', ''height'', ''-c'', ''sex'', ''town'']
               = (Inl (UsageError (InvalidChoice d v)), example_world)"
    by blast
  with u show ?thesis by blast
qed

section \<open>The handlers do not change existing dataframes\<close>

lemma displot_result:
  assumes "displot w k = (r, w')"
  shows "(r = Inr k \<and> w' = w\<lparr> events := events w @ [Displot k] \<rparr>) \<or> (r = Inl ValueError \<and> w' = w)"
  using assms by (auto simp: displot_def Let_def split: if_splits)

lemma displot_Inr:
  assumes "displot w k = (Inr fig, w')"
  shows "fig = k" and "w' = w\<lparr> events := events w @ [Displot k] \<rparr>"
  using displot_result [OF assms] by auto

lemma displot_frame:
  assumes "displot w k = (r, w')"
  shows "heap w' = heap w" and "next_ref w' = next_ref w" and "files w' = files w"
  using displot_result [OF assms] by auto

lemma plot_dist_frame:
  assumes "plot_dist w data var = (r, w')"
  shows "heap w' = heap w \<and> next_ref w' = next_ref w \<and> files w' = files w"
proof -
  obtain r0 w0 where d: "displot w \<lparr> fig_data = heap w data, fig_x = var, fig_y = None,
                        fig_kind = ''hist'', fig_kde = True, fig_color = Some ''r'',
                        fig_bins = Some ''sqrt'', fig_col = None, fig_col_wrap = None,
                        fig_titles = None, fig_suptitle = None, fig_top = None \<rparr> = (r0, w0)"
    by (cases "displot w \<lparr> fig_data = heap w data, fig_x = var, fig_y = None,
                        fig_kind = ''hist'', fig_kde = True, fig_color = Some ''r'',
                        fig_bins = Some ''sqrt'', fig_col = None, fig_col_wrap = None,
                        fig_titles = None, fig_suptitle = None, fig_top = None \<rparr>")
  with assms have "w' = w0"
    by (auto simp: plot_dist_def split: sum.splits)
  with displot_frame [OF d] show ?thesis by simp
qed

lemma plot_biv_dist_frame:
  assumes "plot_biv_dist w data v1 v2 pt = (r, w')"
  shows "heap w' = heap w \<and> next_ref w' = next_ref w \<and> files w' = files w"
proof -
  define k where "k = \<lparr> fig_data = heap w data, fig_x = v1, fig_y = Some v2,
                        fig_kind = (if pt = ''gaussian'' then ''kde'' else ''hist''),
                        fig_kde = False, fig_color = None,
                        fig_bins = None, fig_col = None, fig_col_wrap = None,
                        fig_titles = None, fig_suptitle = None, fig_top = None \<rparr>"
  obtain r0 w0 where d: "displot w k = (r0, w0)" by (cases "displot w k")
  with assms have "w' = w0"
    by (auto simp: plot_biv_dist_def Let_def k_def split: sum.splits)
  with displot_frame [OF d] show ?thesis by simp
qed


lemma plot_dist_by_categoricals_frame:
  assumes "plot_dist_by_categoricals w data var cats = (r, w')"
  shows "(\<forall>ref < next_ref w. heap w' ref = heap w ref) \<and> next_ref w \<le> next_ref w'
         \<and> files w' = files w"
  using assms
  by (auto simp: plot_dist_by_categoricals_def Let_def
           split: if_splits sum.splits prod.splits list.splits dest!: displot_result)

lemma plot_biv_dist_by_categoricals_frame:
  assumes "plot_biv_dist_by_categoricals w data v1 v2 pt cats = (r, w')"
  shows "(\<forall>ref < next_ref w. heap w' ref = heap w ref) \<and> next_ref w \<le> next_ref w'
         \<and> files w' = files w"
  using assms
  by (auto simp: plot_biv_dist_by_categoricals_def Let_def
           split: if_splits sum.splits prod.splits list.splits dest!: displot_result)

lemma savefig_frame:
  assumes "savefig w plot fname = (r, w')"
  shows "heap w' = heap w \<and> next_ref w' = next_ref w"
  using assms by (auto simp: savefig_def split: pyval.splits)

lemma Image_open_frame:
  assumes "Image_open w fname = (r, w')"
  shows "heap w' = heap w \<and> next_ref w' = next_ref w"
  using assms by (auto simp: Image_open_def split: pyval.splits option.splits)

lemma Image_show_frame: "heap (Image_show w img) = heap w"
  by (simp add: Image_show_def)


lemma show_dist_frame:
  assumes "show_dist get_numericals check_valid_png w data args = (r, w')"
  shows "\<forall>ref < next_ref w. heap w' ref = heap w ref"
proof (cases "parse_args (show_dist_parser (get_numericals (heap w data))
                          (columns_values (heap w data))) args")
  case (Inl e)
  with assms show ?thesis by (simp add: show_dist_def)
next
  case (Inr ns)
  show ?thesis
  proof (cases "check_valid_png (attr ns ''outfile'')")
    case (Inl e)
    with assms Inr show ?thesis by (simp add: show_dist_def)
  next
    case rc: (Inr rc)
    show ?thesis
    proof (cases "rc = - 1")
      case True
      with assms Inr rc show ?thesis by (simp add: show_dist_def)
    next
      case False
      define p where "p = (if attr_list ns ''categoricals'' = []
                        then plot_dist w data (attr_str ns ''var'')
                        else plot_dist_by_categoricals w data (attr_str ns ''var'')
                               (attr_list ns ''categoricals''))"
      obtain rp w1 where p: "p = (rp, w1)" by (cases p)
      have f1: "\<forall>ref < next_ref w. heap w1 ref = heap w ref"
        using p plot_dist_frame [of w data "attr_str ns ''var''" rp w1]
          plot_dist_by_categoricals_frame
            [of w data "attr_str ns ''var''" "attr_list ns ''categoricals''" rp w1]
        by (auto simp: p_def split: if_splits)
      note unf = assms [unfolded show_dist_def Inr rc sum.case, folded p_def, unfolded p]
      show ?thesis
      proof (cases rp)
        case (Inl e)
        with unf False f1 show ?thesis by simp
      next
        case plot: (Inr plot)
        obtain r2 w2 where s2: "savefig w1 plot (attr ns ''outfile'') = (r2, w2)"
          by (cases "savefig w1 plot (attr ns ''outfile'')")
        obtain r3 w3 where s3: "Image_open w2 (attr ns ''outfile'') = (r3, w3)"
          by (cases "Image_open w2 (attr ns ''outfile'')")
        from savefig_frame [OF s2] Image_open_frame [OF s3] f1
        have "\<forall>ref < next_ref w. heap w2 ref = heap w ref"
          and "\<forall>ref < next_ref w. heap w3 ref = heap w ref"
          by simp_all
        with unf False plot s2 s3 show ?thesis
          by (auto simp: Image_show_frame split: sum.splits)
      qed
    qed
  qed
qed

lemma show_biv_dist_frame:
  assumes "show_biv_dist get_numericals check_valid_png w data args = (r, w')"
  shows "\<forall>ref < next_ref w. heap w' ref = heap w ref"
proof (cases "parse_args (show_biv_dist_parser (get_numericals (heap w data))
                          (columns_values (heap w data))) args")
  case (Inl e)
  with assms show ?thesis by (simp add: show_biv_dist_def)
next
  case (Inr ns)
  show ?thesis
  proof (cases "check_valid_png (attr ns ''outfile'')")
    case (Inl e)
    with assms Inr show ?thesis by (simp add: show_biv_dist_def)
  next
    case rc: (Inr rc)
    show ?thesis
    proof (cases "rc = - 1")
      case True
      with assms Inr rc show ?thesis by (simp add: show_biv_dist_def)
    next
      case False
      define p where "p = (if attr_list ns ''categoricals'' = []
                        then plot_biv_dist w data (attr_str ns ''v1'')
                               (attr_str ns ''v2'') (attr_str ns ''plot_type'')
                        else plot_biv_dist_by_categoricals w data (attr_str ns ''v1'')
                               (attr_str ns ''v2'') (attr_str ns ''plot_type'')
                               (attr_list ns ''categoricals''))"
      obtain rp w1 where p: "p = (rp, w1)" by (cases p)
      have f1: "\<forall>ref < next_ref w. heap w1 ref = heap w ref"
        using p plot_biv_dist_frame [of w data "attr_str ns ''v1''" "attr_str ns ''v2''"
                  "attr_str ns ''plot_type''" rp w1]
          plot_biv_dist_by_categoricals_frame
            [of w data "attr_str ns ''v1''" "attr_str ns ''v2''" "attr_str ns ''plot_type''"
                "attr_list ns ''categoricals''" rp w1]
        by (auto simp: p_def split: if_splits)
      note unf = assms [unfolded show_biv_dist_def Inr rc sum.case, folded p_def, unfolded p]
      show ?thesis
      proof (cases rp)
        case (Inl e)
        with unf False f1 show ?thesis by simp
      next
        case plot: (Inr plot)
        obtain r2 w2 where s2: "savefig w1 plot (attr ns ''outfile'') = (r2, w2)"
          by (cases "savefig w1 plot (attr ns ''outfile'')")
        obtain r3 w3 where s3: "Image_open w2 (attr ns ''outfile'') = (r3, w3)"
          by (cases "Image_open w2 (attr ns ''outfile'')")
        from savefig_frame [OF s2] Image_open_frame [OF s3] f1
        have "\<forall>ref < next_ref w. heap w2 ref = heap w ref"
          and "\<forall>ref < next_ref w. heap w3 ref = heap w ref"
          by simp_all
        with unf False plot s2 s3 show ?thesis
          by (auto simp: Image_show_frame split: sum.splits)
      qed
    qed
  qed
qed

text \<open>
  C7. A handler never changes a dataframe that existed before the call: whatever the
  tokens and whatever the outcome, every object allocated before the call (in
  particular the caller's dataset) holds the same frame afterwards. The re-indexed frame
  is a new object.
\<close>

theorem handlers_leave_dataset_unchanged:
  "ref < next_ref w \<longrightarrow>
     heap (snd (show_dist get_numericals check_valid_png w data args)) ref = heap w ref \<and>
     heap (snd (show_biv_dist get_numericals check_valid_png w data args)) ref = heap w ref"
  using show_dist_frame [of get_numericals check_valid_png w data args]
    show_biv_dist_frame [of get_numericals check_valid_png w data args]
  by (metis prod.collapse)

theorem handlers_leave_dataset_unchanged_witness:
  "heap (snd (show_dist numeric_columns png_only example_world 0
                [''age'', ''-c'', ''sex'', ''city''])) 0 = example_frame \<and>
   heap (snd (show_biv_dist numeric_columns png_only example_world 0
                [''age'', ''height'', ''-c'', ''sex'', ''city''])) 0 = example_frame"
  using handlers_leave_dataset_unchanged
          [of 0 example_world numeric_columns png_only 0 "[''age'', ''-c'', ''sex'', ''city'']"]
        handlers_leave_dataset_unchanged
          [of 0 example_world numeric_columns png_only 0
              "[''age'', ''height'', ''-c'', ''sex'', ''city'']"]
  by (simp add: example_world_def)

section \<open>The figure is saved, then the saved file is displayed\<close>

lemma plot_dist_events:
  assumes "plot_dist w data var = (Inr plot, w1)"
  shows "\<exists>fig0. events w1 = events w @ [Displot fig0] \<and> files w1 = files w"
  using assms
  by (auto simp: plot_dist_def split: sum.splits prod.splits dest!: displot_result)

lemma plot_biv_dist_events:
  assumes "plot_biv_dist w data v1 v2 pt = (Inr plot, w1)"
  shows "\<exists>fig0. events w1 = events w @ [Displot fig0] \<and> files w1 = files w"
  using assms
  by (auto simp: plot_biv_dist_def Let_def split: sum.splits prod.splits dest!: displot_result)

lemma plot_dist_by_categoricals_events:
  assumes "plot_dist_by_categoricals w data var cats = (Inr plot, w1)"
  shows "\<exists>fig0. events w1 = events w @ [Displot fig0] \<and> files w1 = files w"
  using assms
  by (auto simp: plot_dist_by_categoricals_def Let_def
           split: if_splits sum.splits prod.splits list.splits dest!: displot_result)

lemma plot_biv_dist_by_categoricals_events:
  assumes "plot_biv_dist_by_categoricals w data v1 v2 pt cats = (Inr plot, w1)"
  shows "\<exists>fig0. events w1 = events w @ [Displot fig0] \<and> files w1 = files w"
  using assms
  by (auto simp: plot_biv_dist_by_categoricals_def Let_def
           split: if_splits sum.splits prod.splits list.splits dest!: displot_result)

lemma save_and_display:
  assumes "(case savefig wa plot fname of
              (Inl e, w2) \<Rightarrow> (Inl e, w2)
            | (Inr u, w2) \<Rightarrow>
                (case Image_open w2 fname of
                   (Inl e, w3) \<Rightarrow> (Inl e, w3)
                 | (Inr img, w3) \<Rightarrow> (Inr (), Image_show w3 img))) = (Inr (), w')"
  shows "\<exists>f. fname = PStr f \<and> files w' = (files wa)(f \<mapsto> plot) \<and>
             events w' = events wa @ [Savefig f plot, ImageOpen f, ImageShow plot] \<and>
             heap w' = heap wa \<and> next_ref w' = next_ref wa"
  using assms
  by (auto simp: savefig_def Image_open_def Image_show_def split: pyval.splits)

lemma show_dist_success:
  assumes "parse_args (show_dist_parser (get_numericals (heap w data))
                         (columns_values (heap w data))) args = Inr ns"
    and "check_valid_png (attr ns ''outfile'') = Inr rc" and "rc \<noteq> - 1"
    and "show_dist get_numericals check_valid_png w data args = (Inr (), w')"
  shows "\<exists>plot w1 f.
           (if attr_list ns ''categoricals'' = []
            then plot_dist w data (attr_str ns ''var'')
            else plot_dist_by_categoricals w data (attr_str ns ''var'')
                   (attr_list ns ''categoricals'')) = (Inr plot, w1) \<and>
           attr ns ''outfile'' = PStr f \<and> files w' = (files w1)(f \<mapsto> plot) \<and>
           events w' = events w1 @ [Savefig f plot, ImageOpen f, ImageShow plot] \<and>
           heap w' = heap w1 \<and> next_ref w' = next_ref w1"
proof -
  define p where "p = (if attr_list ns ''categoricals'' = []
                        then plot_dist w data (attr_str ns ''var'')
                        else plot_dist_by_categoricals w data (attr_str ns ''var'')
                               (attr_list ns ''categoricals''))"
  obtain rp w1 where p: "p = (rp, w1)" by (cases p)
  note unf = assms(4) [unfolded show_dist_def assms(1) assms(2) sum.case, folded p_def,
                        unfolded p]
  from unf assms(3) obtain plot where rp: "rp = Inr plot"
    by (cases rp) auto
  from unf assms(3) rp save_and_display [where wa = w1 and plot = plot and fname = "attr ns ''outfile''"
                                     and w' = w']
  show ?thesis
    unfolding p_def [symmetric] p by auto
qed

lemma show_biv_dist_success:
  assumes "parse_args (show_biv_dist_parser (get_numericals (heap w data))
                         (columns_values (heap w data))) args = Inr ns"
    and "check_valid_png (attr ns ''outfile'') = Inr rc" and "rc \<noteq> - 1"
    and "show_biv_dist get_numericals check_valid_png w data args = (Inr (), w')"
  shows "\<exists>plot w1 f.
           (if attr_list ns ''categoricals'' = []
            then plot_biv_dist w data (attr_str ns ''v1'') (attr_str ns ''v2'')
                   (attr_str ns ''plot_type'')
            else plot_biv_dist_by_categoricals w data (attr_str ns ''v1'')
                   (attr_str ns ''v2'') (attr_str ns ''plot_type'')
                   (attr_list ns ''categoricals'')) = (Inr plot, w1) \<and>
           attr ns ''outfile'' = PStr f \<and> files w' = (files w1)(f \<mapsto> plot) \<and>
           events w' = events w1 @ [Savefig f plot, ImageOpen f, ImageShow plot] \<and>
           heap w' = heap w1 \<and> next_ref w' = next_ref w1"
proof -
  define p where "p = (if attr_list ns ''categoricals'' = []
                        then plot_biv_dist w data (attr_str ns ''v1'') (attr_str ns ''v2'')
                               (attr_str ns ''plot_type'')
                        else plot_biv_dist_by_categoricals w data (attr_str ns ''v1'')
                               (attr_str ns ''v2'') (attr_str ns ''plot_type'')
                               (attr_list ns ''categoricals''))"
  obtain rp w1 where p: "p = (rp, w1)" by (cases p)
  note unf = assms(4) [unfolded show_biv_dist_def assms(1) assms(2) sum.case, folded p_def,
                        unfolded p]
  from unf assms(3) obtain plot where rp: "rp = Inr plot"
    by (cases rp) auto
  from unf assms(3) rp save_and_display [where wa = w1 and plot = plot and fname = "attr ns ''outfile''"
                                     and w' = w']
  show ?thesis
    unfolding p_def [symmetric] p by auto
qed

text \<open>
  C8. When a handler gets past the file-name check and returns normally, it has built
  one figure, then saved it to the named file, then opened that file, then shown the
  image read from it, in this order; the file holds the figure that was shown.
\<close>

theorem saved_then_displayed:
  "(parse_args (show_dist_parser (get_numericals (heap w data))
                  (columns_values (heap w data))) args = Inr ns \<and>
    check_valid_png (attr ns ''outfile'') = Inr rc \<and> rc \<noteq> - 1 \<and>
    show_dist get_numericals check_valid_png w data args = (Inr (), w') \<longrightarrow>
    (\<exists>f plot fig0. attr ns ''outfile'' = PStr f \<and>
       events w' = events w @ [Displot fig0, Savefig f plot, ImageOpen f, ImageShow plot] \<and>
       files w' f = Some plot)) \<and>
   (parse_args (show_biv_dist_parser (get_numericals (heap w data))
                  (columns_values (heap w data))) args = Inr ns \<and>
    check_valid_png (attr ns ''outfile'') = Inr rc \<and> rc \<noteq> - 1 \<and>
    show_biv_dist get_numericals check_valid_png w data args = (Inr (), w') \<longrightarrow>
    (\<exists>f plot fig0. attr ns ''outfile'' = PStr f \<and>
       events w' = events w @ [Displot fig0, Savefig f plot, ImageOpen f, ImageShow plot] \<and>
       files w' f = Some plot))"
proof (intro conjI impI)
  assume h: "parse_args (show_dist_parser (get_numericals (heap w data))
                  (columns_values (heap w data))) args = Inr ns \<and>
    check_valid_png (attr ns ''outfile'') = Inr rc \<and> rc \<noteq> - 1 \<and>
    show_dist get_numericals check_valid_png w data args = (Inr (), w')"
  from show_dist_success [of get_numericals w data args ns check_valid_png rc w'] h
  obtain plot w1 f where
    p: "(if attr_list ns ''categoricals'' = []
         then plot_dist w data (attr_str ns ''var'')
         else plot_dist_by_categoricals w data (attr_str ns ''var'')
                (attr_list ns ''categoricals'')) = (Inr plot, w1)"
    and r: "attr ns ''outfile'' = PStr f" "files w' = (files w1)(f \<mapsto> plot)"
      "events w' = events w1 @ [Savefig f plot, ImageOpen f, ImageShow plot]"
    by blast
  from p plot_dist_events plot_dist_by_categoricals_events
  obtain fig0 where "events w1 = events w @ [Displot fig0]"
    by (metis (no_types, lifting))
  with r show "\<exists>f plot fig0. attr ns ''outfile'' = PStr f \<and>
       events w' = events w @ [Displot fig0, Savefig f plot, ImageOpen f, ImageShow plot] \<and>
       files w' f = Some plot"
    by simp
next
  assume h: "parse_args (show_biv_dist_parser (get_numericals (heap w data))
                  (columns_values (heap w data))) args = Inr ns \<and>
    check_valid_png (attr ns ''outfile'') = Inr rc \<and> rc \<noteq> - 1 \<and>
    show_biv_dist get_numericals check_valid_png w data args = (Inr (), w')"
  from show_biv_dist_success [of get_numericals w data args ns check_valid_png rc w'] h
  obtain plot w1 f where
    p: "(if attr_list ns ''categoricals'' = []
         then plot_biv_dist w data (attr_str ns ''v1'') (attr_str ns ''v2'')
                (attr_str ns ''plot_type'')
         else plot_biv_dist_by_categoricals w data (attr_str ns ''v1'')
                (attr_str ns ''v2'') (attr_str ns ''plot_type'')
                (attr_list ns ''categoricals'')) = (Inr plot, w1)"
    and r: "attr ns ''outfile'' = PStr f" "files w' = (files w1)(f \<mapsto> plot)"
      "events w' = events w1 @ [Savefig f plot, ImageOpen f, ImageShow plot]"
    by blast
  from p plot_biv_dist_events plot_biv_dist_by_categoricals_events
  obtain fig0 where "events w1 = events w @ [Displot fig0]"
    by (metis (no_types, lifting))
  with r show "\<exists>f plot fig0. attr ns ''outfile'' = PStr f \<and>
       events w' = events w @ [Displot fig0, Savefig f plot, ImageOpen f, ImageShow plot] \<and>
       files w' f = Some plot"
    by simp
qed


theorem saved_then_displayed_witness:
  "(\<exists>f plot fig0.
      events (snd (show_dist numeric_columns png_only example_world 0 [''age'']))
        = [Displot fig0, Savefig f plot, ImageOpen f, ImageShow plot] \<and>
      files (snd (show_dist numeric_columns png_only example_world 0 [''age''])) f
        = Some plot) \<and>
   (\<exists>f plot fig0.
      events (snd (show_biv_dist numeric_columns png_only example_world 0
                     [''age'', ''height'', ''gaussian'']))
        = [Displot fig0, Savefig f plot, ImageOpen f, ImageShow plot] \<and>
      files (snd (show_biv_dist numeric_columns png_only example_world 0
                    [''age'', ''height'', ''gaussian''])) f
        = Some plot)"
proof -
  have ev: "events example_world = []" by (simp add: example_world_def)
  have ne: "(0::int) \<noteq> - 1" by simp
  define w1 where "w1 = snd (show_dist numeric_columns png_only example_world 0 [''age''])"
  define w2 where "w2 = snd (show_biv_dist numeric_columns png_only example_world 0
                                [''age'', ''height'', ''gaussian''])"
  have "case parse_args (show_dist_parser (numeric_columns (heap example_world 0))
                           (columns_values (heap example_world 0))) [''age''] of
          Inl e \<Rightarrow> False
        | Inr ns \<Rightarrow> png_only (attr ns ''outfile'') = Inr 0"
    by code_simp
  then obtain ns1 where p1:
    "parse_args (show_dist_parser (numeric_columns (heap example_world 0))
                   (columns_values (heap example_world 0))) [''age''] = Inr ns1"
    "png_only (attr ns1 ''outfile'') = Inr 0"
    by (auto split: sum.splits)
  have "fst (show_dist numeric_columns png_only example_world 0 [''age'']) = Inr ()"
    by code_simp
  then have r1: "show_dist numeric_columns png_only example_world 0 [''age''] = (Inr (), w1)"
    unfolding w1_def by (metis prod.collapse)
  from saved_then_displayed
         [of numeric_columns example_world 0 "[''age'']" ns1 png_only 0 w1, THEN conjunct1]
       p1 r1 ne
  have "\<exists>f plot fig0. attr ns1 ''outfile'' = PStr f \<and>
          events w1 = events example_world
                        @ [Displot fig0, Savefig f plot, ImageOpen f, ImageShow plot] \<and>
          files w1 f = Some plot"
    by blast
  then have u: "\<exists>f plot fig0.
      events w1 = [Displot fig0, Savefig f plot, ImageOpen f, ImageShow plot] \<and>
      files w1 f = Some plot"
    unfolding ev append_Nil by blast
  have "case parse_args (show_biv_dist_parser (numeric_columns (heap example_world 0))
                           (columns_values (heap example_world 0)))
               [''age'', ''height'', ''gaussian''] of
          Inl e \<Rightarrow> False
        | Inr ns \<Rightarrow> png_only (attr ns ''outfile'') = Inr 0"
    by code_simp
  then obtain ns2 where p2:
    "parse_args (show_biv_dist_parser (numeric_columns (heap example_world 0))
                   (columns_values (heap example_world 0)))
       [''age'', ''height'', ''gaussian''] = Inr ns2"
    "png_only (attr ns2 ''outfile'') = Inr 0"
    by (auto split: sum.splits)
  have "fst (show_biv_dist numeric_columns png_only example_world 0
               [''age'', ''height'', ''gaussian'']) = Inr ()"
    by code_simp
  then have r2: "show_biv_dist numeric_columns png_only example_world 0
                   [''age'', ''height'', ''gaussian''] = (Inr (), w2)"
    unfolding w2_def by (metis prod.collapse)
  from saved_then_displayed
         [of numeric_columns example_world 0 "[''age'', ''height'', ''gaussian'']" ns2
             png_only 0 w2, THEN conjunct2]
       p2 r2 ne
  have "\<exists>f plot fig0. attr ns2 ''outfile'' = PStr f \<and>
          events w2 = events example_world
                        @ [Displot fig0, Savefig f plot, ImageOpen f, ImageShow plot] \<and>
          files w2 f = Some plot"
    by blast
  then have "\<exists>f plot fig0.
      events w2 = [Displot fig0, Savefig f plot, ImageOpen f, ImageShow plot] \<and>
      files w2 f = Some plot"
    unfolding ev append_Nil by blast
  with u show ?thesis
    unfolding w1_def w2_def by blast
qed

section \<open>The default output file\<close>

lemmas parser_defs =
  parse_args_def parse_known_args_def show_dist_parser_def show_biv_dist_parser_def
  help_action_def add_positional_def add_optional_def option_string_actions_def
  consume_loop.simps loop_body_def consume_positionals_def consume_optional_def option_at_def
  match_argument_def get_nargs_pattern_def dash_star_def match_arguments_partial_def
  get_positional_actions_def take_action_def get_values_def check_value_def

lemma parse_optional_positional:
  "v = [] \<or> hd v \<noteq> CHR ''-'' \<Longrightarrow> parse_optional actions v = Inr None"
  by (auto simp: parse_optional_def)

lemma get_column_present:
  "v \<in> set (columns_values d) \<Longrightarrow> get_column d v \<noteq> None"
  by (auto simp: columns_values_def get_column_def map_of_eq_None_iff)

lemma show_dist_parser_single:
  assumes "parse_optional (show_dist_parser nums cols) v = Inr None" and "v \<in> set nums"
  shows "\<exists>ns. parse_args (show_dist_parser nums cols) [v] = Inr ns \<and>
              ns ''var'' = Some (PStr v) \<and> ns ''outfile'' = Some (PStr ''output.png'') \<and>
              ns ''categoricals'' = Some (PList [])"
proof -
  have ne: "v \<noteq> ''--''"
    using assms(1)
    by (auto simp: parse_optional_def show_dist_parser_def help_action_def add_positional_def
          add_optional_def option_string_actions_def get_option_tuples_def partition_def
          startswith_def)
  have cl: "classify (show_dist_parser nums cols) [v] = Inr ([None], ''A'')"
    using assms(1) ne by simp
  show ?thesis
    unfolding parse_args_def parse_known_args_def cl
    using ne assms(2)
    by (simp add: parser_defs)
qed

text \<open>
  C6, as amended. Let \<open>v\<close> be a numerical column of the dataset whose name the parser
  reads as a positional argument (every name that does not begin with \<open>-\<close> is one),
  and let \<open>check_valid_png\<close> accept \<open>output.png\<close>. Then the token list \<open>[v]\<close> parses
  with the output file name \<open>output.png\<close>, the univariate handler returns normally
  and the file \<open>output.png\<close> holds the figure.
\<close>

theorem default_outfile_written:
  "v \<in> set (get_numericals (heap w data)) \<and> v \<in> set (columns_values (heap w data)) \<and>
   parse_optional (show_dist_parser (get_numericals (heap w data))
                     (columns_values (heap w data))) v = Inr None \<and>
   check_valid_png (PStr ''output.png'') = Inr rc \<and> rc \<noteq> - 1 \<longrightarrow>
   (\<exists>ns. parse_args (show_dist_parser (get_numericals (heap w data))
                       (columns_values (heap w data))) [v] = Inr ns \<and>
         attr ns ''outfile'' = PStr ''output.png'') \<and>
   fst (show_dist get_numericals check_valid_png w data [v]) = Inr () \<and>
   (\<exists>plot. files (snd (show_dist get_numericals check_valid_png w data [v])) ''output.png''
             = Some plot)"
proof (intro impI)
  let ?P = "show_dist_parser (get_numericals (heap w data)) (columns_values (heap w data))"
  assume h: "v \<in> set (get_numericals (heap w data)) \<and>
     v \<in> set (columns_values (heap w data)) \<and> parse_optional ?P v = Inr None \<and>
     check_valid_png (PStr ''output.png'') = Inr rc \<and> rc \<noteq> - 1"
  from show_dist_parser_single [of "get_numericals (heap w data)"
         "columns_values (heap w data)" v] h
  obtain ns where ns: "parse_args ?P [v] = Inr ns" "ns ''var'' = Some (PStr v)"
    "ns ''outfile'' = Some (PStr ''output.png'')" "ns ''categoricals'' = Some (PList [])"
    by blast
  from h have col: "get_column (heap w data) v \<noteq> None"
    by (simp add: get_column_present)
  from ns h col have
    "fst (show_dist get_numericals check_valid_png w data [v]) = Inr () \<and>
     (\<exists>plot. files (snd (show_dist get_numericals check_valid_png w data [v])) ''output.png''
               = Some plot)"
    by (auto simp: show_dist_def attr_def attr_str_def attr_list_def plot_dist_def displot_def
          savefig_def Image_open_def Image_show_def Let_def)
  with ns show "(\<exists>ns. parse_args ?P [v] = Inr ns \<and> attr ns ''outfile'' = PStr ''output.png'') \<and>
     fst (show_dist get_numericals check_valid_png w data [v]) = Inr () \<and>
     (\<exists>plot. files (snd (show_dist get_numericals check_valid_png w data [v])) ''output.png''
               = Some plot)"
    by (auto simp: attr_def)
qed

theorem default_outfile_written_witness:
  "fst (show_dist numeric_columns png_only example_world 0 [''age'']) = Inr () \<and>
   (\<exists>plot. files (snd (show_dist numeric_columns png_only example_world 0 [''age'']))
             ''output.png'' = Some plot)"
proof -
  have "''age'' \<in> set (numeric_columns (heap example_world 0))"
    and "''age'' \<in> set (columns_values (heap example_world 0))"
    and "png_only (PStr ''output.png'') = Inr 0"
    by code_simp+
  moreover have "parse_optional (show_dist_parser (numeric_columns (heap example_world 0))
                     (columns_values (heap example_world 0))) ''age'' = Inr None"
    by (rule parse_optional_positional) simp
  moreover have "(0::int) \<noteq> - 1" by simp
  ultimately show ?thesis
    using default_outfile_written [of "''age''" numeric_columns example_world 0 png_only 0]
    by blast
qed

text \<open>
  The claim as stated fails for a numerical column whose name looks like an option:
  for the column \<open>-t\<close> the token list \<open>[-t]\<close> leaves the required argument unset, the
  parser ends with a usage error and no file is written.
\<close>

theorem default_outfile_counterexample:
  "''-t'' \<in> set (numeric_columns (heap dashed_world 0)) \<and>
   ''-t'' \<in> set (columns_values (heap dashed_world 0)) \<and>
   show_dist numeric_columns png_only dashed_world 0 [''-t'']
     = (Inl (UsageError (RequiredArguments [''var''])), dashed_world)"
proof -
  have "''-t'' \<in> set (numeric_columns (heap dashed_world 0))"
    and "''-t'' \<in> set (columns_values (heap dashed_world 0))"
    by code_simp+
  moreover have "case parse_args (show_dist_parser (numeric_columns (heap dashed_world 0))
                               (columns_values (heap dashed_world 0))) [''-t''] of
                   Inl e \<Rightarrow> e = UsageError (RequiredArguments [''var''])
                 | Inr ns \<Rightarrow> False"
    by code_simp
  then have "parse_args (show_dist_parser (numeric_columns (heap dashed_world 0))
                               (columns_values (heap dashed_world 0))) [''-t'']
                 = Inl (UsageError (RequiredArguments [''var'']))"
    by (simp split: sum.splits)
  ultimately show ?thesis
    by (simp add: show_dist_def)
qed


section \<open>The same variable given twice\<close>

lemma show_biv_dist_parser_pair:
  assumes "parse_optional (show_biv_dist_parser nums cols) a = Inr None" and "a \<in> set nums"
    and "parse_optional (show_biv_dist_parser nums cols) b = Inr None" and "b \<in> set nums"
  shows "\<exists>ns. parse_args (show_biv_dist_parser nums cols) [a, b] = Inr ns \<and>
              ns ''v1'' = Some (PStr a) \<and> ns ''v2'' = Some (PStr b) \<and>
              ns ''plot_type'' = Some (PStr ''heatmap'') \<and>
              ns ''outfile'' = Some (PStr ''output.png'') \<and>
              ns ''categoricals'' = Some (PList [])"
proof -
  have ne: "a \<noteq> ''--''" "b \<noteq> ''--''"
    using assms(1,3)
    by (auto simp: parse_optional_def show_biv_dist_parser_def help_action_def
          add_positional_def add_optional_def option_string_actions_def get_option_tuples_def
          partition_def startswith_def)
  have cl: "classify (show_biv_dist_parser nums cols) [a, b] = Inr ([None, None], ''AA'')"
    using assms(1,3) ne by simp
  show ?thesis
    unfolding parse_args_def parse_known_args_def cl
    using ne assms(2,4)
    by (simp add: parser_defs)
qed

text \<open>
  C10, as amended. The bivariate parser has no check that the two variables differ:
  for a numerical column \<open>v\<close> whose name the parser reads as a positional argument, the
  token list \<open>[v, v]\<close> parses with \<open>v1 = v2 = v\<close>, and (when \<open>v\<close> is a column and the
  default output name is accepted) the handler builds the plot of \<open>v\<close> against \<open>v\<close>,
  saves and shows it.
\<close>

theorem same_variable_twice_accepted:
  "v \<in> set (get_numericals (heap w data)) \<and> v \<in> set (columns_values (heap w data)) \<and>
   parse_optional (show_biv_dist_parser (get_numericals (heap w data))
                     (columns_values (heap w data))) v = Inr None \<and>
   check_valid_png (PStr ''output.png'') = Inr rc \<and> rc \<noteq> - 1 \<longrightarrow>
   (\<exists>ns. parse_args (show_biv_dist_parser (get_numericals (heap w data))
                       (columns_values (heap w data))) [v, v] = Inr ns \<and>
         ns ''v1'' = Some (PStr v) \<and> ns ''v2'' = Some (PStr v)) \<and>
   fst (show_biv_dist get_numericals check_valid_png w data [v, v]) = Inr () \<and>
   (\<exists>fig plot.
      events (snd (show_biv_dist get_numericals check_valid_png w data [v, v]))
        = events w @ [Displot fig, Savefig ''output.png'' plot, ImageOpen ''output.png'',
                      ImageShow plot] \<and>
      fig_x fig = v \<and> fig_y fig = Some v)"
proof (intro impI)
  let ?P = "show_biv_dist_parser (get_numericals (heap w data)) (columns_values (heap w data))"
  assume h: "v \<in> set (get_numericals (heap w data)) \<and>
     v \<in> set (columns_values (heap w data)) \<and> parse_optional ?P v = Inr None \<and>
     check_valid_png (PStr ''output.png'') = Inr rc \<and> rc \<noteq> - 1"
  from show_biv_dist_parser_pair [of "get_numericals (heap w data)"
         "columns_values (heap w data)" v v] h
  obtain ns where ns: "parse_args ?P [v, v] = Inr ns" "ns ''v1'' = Some (PStr v)"
    "ns ''v2'' = Some (PStr v)" "ns ''plot_type'' = Some (PStr ''heatmap'')"
    "ns ''outfile'' = Some (PStr ''output.png'')" "ns ''categoricals'' = Some (PList [])"
    by blast
  from h have col: "get_column (heap w data) v \<noteq> None"
    by (simp add: get_column_present)
  from ns h col have
    "fst (show_biv_dist get_numericals check_valid_png w data [v, v]) = Inr () \<and>
     (\<exists>fig plot.
        events (snd (show_biv_dist get_numericals check_valid_png w data [v, v]))
          = events w @ [Displot fig, Savefig ''output.png'' plot, ImageOpen ''output.png'',
                        ImageShow plot] \<and>
        fig_x fig = v \<and> fig_y fig = Some v)"
    by (auto simp: show_biv_dist_def attr_def attr_str_def attr_list_def plot_biv_dist_def
          displot_def savefig_def Image_open_def Image_show_def Let_def)
  with ns show "(\<exists>ns. parse_args ?P [v, v] = Inr ns \<and>
         ns ''v1'' = Some (PStr v) \<and> ns ''v2'' = Some (PStr v)) \<and>
     fst (show_biv_dist get_numericals check_valid_png w data [v, v]) = Inr () \<and>
     (\<exists>fig plot.
        events (snd (show_biv_dist get_numericals check_valid_png w data [v, v]))
          = events w @ [Displot fig, Savefig ''output.png'' plot, ImageOpen ''output.png'',
                        ImageShow plot] \<and>
        fig_x fig = v \<and> fig_y fig = Some v)"
    by blast
qed

theorem same_variable_twice_accepted_witness:
  "fst (show_biv_dist numeric_columns png_only example_world 0 [''age'', ''age'']) = Inr () \<and>
   (\<exists>fig plot.
      events (snd (show_biv_dist numeric_columns png_only example_world 0 [''age'', ''age'']))
        = events example_world
            @ [Displot fig, Savefig ''output.png'' plot, ImageOpen ''output.png'',
               ImageShow plot] \<and>
      fig_x fig = ''age'' \<and> fig_y fig = Some ''age'')"
proof -
  have "''age'' \<in> set (numeric_columns (heap example_world 0))"
    and "''age'' \<in> set (columns_values (heap example_world 0))"
    and "png_only (PStr ''output.png'') = Inr 0"
    by code_simp+
  moreover have "parse_optional (show_biv_dist_parser (numeric_columns (heap example_world 0))
                     (columns_values (heap example_world 0))) ''age'' = Inr None"
    by (rule parse_optional_positional) simp
  moreover have "(0::int) \<noteq> - 1" by simp
  ultimately show ?thesis
    using same_variable_twice_accepted
            [of "''age''" numeric_columns example_world 0 png_only 0]
    by blast
qed

text \<open>
  The claim as stated fails for a numerical column whose name looks like an option:
  for the column \<open>-t\<close> the token list \<open>[-t, -t]\<close> leaves both required arguments
  unset and the parser ends with a usage error.
\<close>

theorem same_variable_twice_counterexample:
  "''-t'' \<in> set (numeric_columns (heap dashed_world 0)) \<and>
   show_biv_dist numeric_columns png_only dashed_world 0 [''-t'', ''-t'']
     = (Inl (UsageError (RequiredArguments [''v1'', ''v2''])), dashed_world)"
proof -
  have "''-t'' \<in> set (numeric_columns (heap dashed_world 0))"
    by code_simp
  moreover have "case parse_args (show_biv_dist_parser (numeric_columns (heap dashed_world 0))
                               (columns_values (heap dashed_world 0))) [''-t'', ''-t''] of
                   Inl e \<Rightarrow> e = UsageError (RequiredArguments [''v1'', ''v2''])
                 | Inr ns \<Rightarrow> False"
    by code_simp
  then have "parse_args (show_biv_dist_parser (numeric_columns (heap dashed_world 0))
                               (columns_values (heap dashed_world 0))) [''-t'', ''-t'']
                 = Inl (UsageError (RequiredArguments [''v1'', ''v2'']))"
    by (simp split: sum.splits)
  ultimately show ?thesis
    by (simp add: show_biv_dist_def)
qed


section \<open>The kind of a bivariate figure\<close>

lemma plot_biv_dist_kind:
  assumes "plot_biv_dist w data v1 v2 pt = (Inr plot, w1)"
  shows "fig_kind plot = (if pt = ''gaussian'' then ''kde'' else ''hist'')"
  using assms
  by (auto simp: plot_biv_dist_def Let_def split: sum.splits prod.splits if_splits
           dest!: displot_result)

lemma plot_biv_dist_by_categoricals_kind:
  assumes "plot_biv_dist_by_categoricals w data v1 v2 pt cats = (Inr plot, w1)"
  shows "fig_kind plot = (if pt = ''gaussian'' then ''kde'' else ''hist'')"
  using assms
  by (auto simp: plot_biv_dist_by_categoricals_def Let_def
           split: if_splits sum.splits prod.splits list.splits dest!: displot_result)

section \<open>Composite labels and facets\<close>

lemma those_eq_Some: "those xs = Some ys \<longleftrightarrow> xs = map Some ys"
proof (induction xs arbitrary: ys)
  case Nil
  then show ?case by auto
next
  case (Cons x xs)
  then show ?case by (cases x) (auto split: option.splits)
qed

lemma those_eq_None: "those xs = None \<longleftrightarrow> None \<in> set xs"
proof (induction xs)
  case Nil
  then show ?case by simp
next
  case (Cons x xs)
  then show ?case by (cases x) (auto split: option.splits)
qed

lemma cell_string_Some: "cell_string c = Some s \<longleftrightarrow> c = Str s"
  by (cases c) (simp_all add: cell_string_def)

lemma cell_strings_Some: "map cell_string cs = map Some ss \<longleftrightarrow> cs = map Str ss"
proof (induction cs arbitrary: ss)
  case Nil
  then show ?case by auto
next
  case (Cons c cs)
  then show ?case by (cases ss) (auto simp: cell_string_Some)
qed

lemma those_cell_strings: "those (map cell_string cs) = Some ss \<longleftrightarrow> cs = map Str ss"
  by (simp add: those_eq_Some cell_strings_Some)

lemma those_cell_strings_None:
  "those (map cell_string cs) = None \<longleftrightarrow> (\<exists>c \<in> set cs. cell_string c = None)"
  by (auto simp: those_eq_None image_iff) (metis, metis)

lemma map_Str_eq: "map Str xs = map Str ys \<longleftrightarrow> xs = ys"
  by (simp add: inj_def)

lemma str_join_Tuple:
  "str_join (Tuple cs) = Inr s \<longleftrightarrow> (\<exists>ss. cs = map Str ss \<and> s = join ''_'' ss)"
proof (cases "those (map cell_string cs)")
  case None
  then have "\<And>ss. cs \<noteq> map Str ss"
    using those_cell_strings [of cs] by auto
  with None show ?thesis
    by (simp add: str_join_def)
next
  case (Some x)
  then have "cs = map Str x" by (simp add: those_cell_strings)
  with Some show ?thesis
    by (auto simp: str_join_def map_Str_eq)
qed

lemma str_join_Tuple_Inl:
  "str_join (Tuple cs) = Inl e \<longleftrightarrow> (e = TypeError \<and> (\<exists>c \<in> set cs. cell_string c = None))"
proof (cases "those (map cell_string cs)")
  case None
  then show ?thesis
    using those_cell_strings_None [of cs] by (auto simp: str_join_def)
next
  case (Some x)
  then have "\<not> (\<exists>c \<in> set cs. cell_string c = None)"
    using those_cell_strings_None [of cs] by simp
  with Some show ?thesis
    by (simp add: str_join_def)
qed

lemma str_join_error: "str_join row = Inl e \<Longrightarrow> e = TypeError"
  by (auto simp: str_join_def split: label.splits cell.splits option.splits)

lemma join_rows_Inr:
  "join_rows rows = Inr labels \<longleftrightarrow> list_all2 (\<lambda>r s. str_join r = Inr s) rows labels"
proof (induction rows arbitrary: labels)
  case Nil
  then show ?case by auto
next
  case (Cons r rows)
  show ?case
  proof (cases labels)
    case Nil
    then show ?thesis by (simp split: sum.splits)
  next
    case (Cons l ls)
    then show ?thesis
      by (simp add: Cons.IH [symmetric] split: sum.splits)
  qed
qed

lemma join_rows_Inl:
  "join_rows rows = Inl e \<longleftrightarrow> (e = TypeError \<and> (\<exists>r \<in> set rows. str_join r = Inl TypeError))"
proof (induction rows)
  case Nil
  then show ?case by simp
next
  case (Cons r rows)
  show ?case
  proof (cases "str_join r")
    case (Inl e')
    with str_join_error [OF Inl] show ?thesis by auto
  next
    case (Inr s)
    with Cons.IH show ?thesis
      by (auto split: sum.splits)
  qed
qed

lemma wf_frame_column:
  assumes "wf_frame d" "c \<in> set (columns_values d)"
  shows "\<exists>cs. get_column d c = Some cs \<and> length cs = length (df_index d)"
proof -
  from assms(2) have "get_column d c \<noteq> None"
    by (simp add: get_column_present)
  then obtain cs where cs: "get_column d c = Some cs"
    by blast
  then have "(c, cs) \<in> set (df_columns d)"
    by (auto simp: get_column_def dest: map_of_SomeD)
  with assms(1) have "length cs = length (df_index d)"
    by (auto simp: wf_frame_def list_all_iff)
  with cs show ?thesis by blast
qed

lemma set_index_rows:
  assumes wf: "wf_frame d" and sub: "set keys \<subseteq> set (columns_values d)"
    and len: "length keys > 1"
  shows "\<exists>nf. set_index d keys = Inr nf \<and> length (df_index nf) = length (df_index d) \<and>
           (\<forall>i < length (df_index d).
              \<exists>cells. df_index nf ! i = Tuple cells \<and>
                      map (\<lambda>c. cell_at d c i) keys = map Some cells)"
proof -
  define arrays where "arrays = map (\<lambda>c. the (get_column d c)) keys"
  have col: "\<And>c. c \<in> set keys \<Longrightarrow>
               get_column d c = Some (the (get_column d c)) \<and>
               length (the (get_column d c)) = length (df_index d)"
    using wf_frame_column [OF wf] sub by fastforce
  then have m: "map (get_column d) keys = map Some arrays"
    by (simp add: arrays_def)
  then have th: "those (map (get_column d) keys) = Some arrays"
    by (simp add: those_eq_Some)
  from len have "length arrays > 1" by (simp add: arrays_def)
  then obtain a b rest where ar: "arrays = a # b # rest"
    by (cases arrays; cases "tl arrays") auto
  define nf where "nf = \<lparr> df_columns = filter (\<lambda>(n, cs). n \<notin> set keys) (df_columns d),
                df_index = map (\<lambda>i. Tuple (map (\<lambda>a. a ! i) arrays))
                             [0..<length (df_index d)] \<rparr>"
  have si: "set_index d keys = Inr nf"
    unfolding set_index_def th nf_def by (simp add: ar)
  have "\<And>i c. i < length (df_index d) \<Longrightarrow> c \<in> set keys \<Longrightarrow>
          cell_at d c i = Some (the (get_column d c) ! i)"
  proof -
    fix i c assume i: "i < length (df_index d)" and c: "c \<in> set keys"
    from col [OF c] obtain cs where "get_column d c = Some cs"
      "length cs = length (df_index d)"
      by blast
    with i show "cell_at d c i = Some (the (get_column d c) ! i)"
      by (simp add: cell_at_def)
  qed
  then have "\<And>i. i < length (df_index d) \<Longrightarrow>
          map (\<lambda>c. cell_at d c i) keys = map Some (map (\<lambda>a. a ! i) arrays)"
    by (simp add: arrays_def)
  then have "\<forall>i < length (df_index d).
              \<exists>cells. df_index nf ! i = Tuple cells \<and>
                      map (\<lambda>c. cell_at d c i) keys = map Some cells"
    by (simp add: nf_def)
  with si show ?thesis
    by (intro exI [of _ nf]) (simp add: nf_def)
qed

lemma composite_label_of_tuple:
  assumes "map (\<lambda>c. cell_at d c i) keys = map Some cells"
  shows "composite_label d keys i
           = (case str_join (Tuple cells) of Inl e \<Rightarrow> None | Inr s \<Rightarrow> Some s)"
proof -
  from assms have "those (map (\<lambda>c. cell_at d c i) keys) = Some cells"
    by (simp add: those_eq_Some)
  then show ?thesis
    by (simp add: composite_label_def str_join_def split: option.splits)
qed

lemma labels_are_composite:
  assumes wf: "wf_frame d" and sub: "set keys \<subseteq> set (columns_values d)"
    and len: "length keys > 1"
    and si: "set_index d keys = Inr nf" and jr: "join_rows (df_index nf) = Inr labels"
  shows "length labels = length (df_index d)"
    and "\<forall>i < length (df_index d). composite_label d keys i = Some (labels ! i)"
proof -
  from set_index_rows [OF wf sub len] si have
    n: "length (df_index nf) = length (df_index d)"
    and rows: "\<forall>i < length (df_index d).
              \<exists>cells. df_index nf ! i = Tuple cells \<and>
                      map (\<lambda>c. cell_at d c i) keys = map Some cells"
    by auto
  from jr have la: "list_all2 (\<lambda>r s. str_join r = Inr s) (df_index nf) labels"
    by (simp add: join_rows_Inr)
  then show l: "length labels = length (df_index d)"
    using n by (auto dest: list_all2_lengthD)
  show "\<forall>i < length (df_index d). composite_label d keys i = Some (labels ! i)"
  proof (intro allI impI)
    fix i assume i: "i < length (df_index d)"
    with rows obtain cells where c: "df_index nf ! i = Tuple cells"
      "map (\<lambda>c. cell_at d c i) keys = map Some cells"
      by blast
    from la i n have "str_join (df_index nf ! i) = Inr (labels ! i)"
      by (simp add: list_all2_conv_all_nth)
    with c composite_label_of_tuple [OF c(2)]
    show "composite_label d keys i = Some (labels ! i)"
      by simp
  qed
qed

lemma join_rows_fails_iff:
  assumes wf: "wf_frame d" and sub: "set keys \<subseteq> set (columns_values d)"
    and len: "length keys > 1" and si: "set_index d keys = Inr nf"
  shows "(join_rows (df_index nf) = Inl TypeError) \<longleftrightarrow>
         (\<exists>c \<in> set keys. \<exists>cs x. get_column d c = Some cs \<and> x \<in> set cs \<and> cell_string x = None)"
proof
  from set_index_rows [OF wf sub len] si have
    n: "length (df_index nf) = length (df_index d)"
    and rows: "\<forall>i < length (df_index d).
              \<exists>cells. df_index nf ! i = Tuple cells \<and>
                      map (\<lambda>c. cell_at d c i) keys = map Some cells"
    by auto
  {
    assume "join_rows (df_index nf) = Inl TypeError"
    then obtain r where r: "r \<in> set (df_index nf)" "str_join r = Inl TypeError"
      by (auto simp: join_rows_Inl)
    from r(1) n obtain i where i: "i < length (df_index d)" "r = df_index nf ! i"
      by (auto simp: in_set_conv_nth)
    with rows obtain cells where c: "r = Tuple cells"
      "map (\<lambda>c. cell_at d c i) keys = map Some cells"
      by auto
    from r(2) c(1) obtain x where x: "x \<in> set cells" "cell_string x = None"
      by (auto simp: str_join_Tuple_Inl)
    from x(1) obtain j where j: "j < length cells" "x = cells ! j"
      by (auto simp: in_set_conv_nth)
    from c(2) have lk: "length keys = length cells"
      by (metis length_map)
    from c(2) j lk have "cell_at d (keys ! j) i = Some x"
      by (metis nth_map)
    then obtain cs where "get_column d (keys ! j) = Some cs" "x \<in> set cs"
      by (auto simp: cell_at_def split: option.splits if_splits)
    with x(2) j lk
    show "\<exists>c \<in> set keys. \<exists>cs x. get_column d c = Some cs \<and> x \<in> set cs \<and> cell_string x = None"
      by (metis nth_mem)
  }
  {
    assume "\<exists>c \<in> set keys. \<exists>cs x. get_column d c = Some cs \<and> x \<in> set cs \<and> cell_string x = None"
    then obtain c cs x where c: "c \<in> set keys" "get_column d c = Some cs" "x \<in> set cs"
      "cell_string x = None"
      by blast
    from wf_frame_column [OF wf] sub c(1,2) have lcs: "length cs = length (df_index d)"
      by fastforce
    from c(3) obtain i where i: "i < length cs" "x = cs ! i"
      by (auto simp: in_set_conv_nth)
    from i lcs rows obtain cells where cells: "df_index nf ! i = Tuple cells"
      "map (\<lambda>c. cell_at d c i) keys = map Some cells"
      by auto
    from c(1) obtain j where j: "j < length keys" "c = keys ! j"
      by (auto simp: in_set_conv_nth)
    from cells(2) have lk: "length keys = length cells"
      by (metis length_map)
    have "cell_at d c i = Some x"
      using c(2) i by (simp add: cell_at_def)
    moreover from cells(2) j lk have "cell_at d (keys ! j) i = Some (cells ! j)"
      by (metis nth_map)
    ultimately have "x = cells ! j" using j by simp
    with j lk have "x \<in> set cells" by simp
    with c(4) have "str_join (Tuple cells) = Inl TypeError"
      by (auto simp: str_join_Tuple_Inl)
    moreover from i lcs n have "df_index nf ! i \<in> set (df_index nf)"
      by simp
    ultimately show "join_rows (df_index nf) = Inl TypeError"
      using cells(1) by (auto simp: join_rows_Inl)
  }
qed

lemma plot_dist_by_categoricals_multi:
  assumes "length cats > 1" and "set_index (heap w data) cats = Inr nf"
    and "plot_dist_by_categoricals w data var cats = (r, w')"
  shows "(\<exists>e. join_rows (df_index nf) = Inl e \<and> r = Inl e) \<or>
         (\<exists>labels. join_rows (df_index nf) = Inr labels \<and>
            (r = Inl ValueError \<or>
             (\<exists>plot. r = Inr plot \<and>
                fig_col plot = Some (ColVector (map (\<lambda>s. Scalar (Str s)) labels)) \<and>
                fig_col_wrap plot = Some 3 \<and>
                fig_data plot = nf\<lparr> df_index := map (\<lambda>s. Scalar (Str s)) labels \<rparr>)))"
  using assms
  by (auto simp: plot_dist_by_categoricals_def Let_def
           split: sum.splits prod.splits dest!: displot_result)


lemma plot_dist_by_categoricals_single:
  assumes "plot_dist_by_categoricals w data var [c] = (Inr plot, w')"
  shows "fig_col plot = Some (ColName c) \<and> fig_col_wrap plot = Some 3 \<and>
         fig_data plot = heap w data \<and> get_column (heap w data) c \<noteq> None"
  using assms
  by (auto simp: plot_dist_by_categoricals_def displot_def Let_def
           split: sum.splits prod.splits if_splits)

lemma plot_biv_dist_by_categoricals_single:
  assumes "plot_biv_dist_by_categoricals w data v1 v2 pt [c] = (Inr plot, w')"
  shows "fig_col plot = Some (ColName c) \<and> fig_col_wrap plot = Some 3 \<and>
         fig_data plot = heap w data \<and> get_column (heap w data) c \<noteq> None"
  using assms
  by (auto simp: plot_biv_dist_by_categoricals_def displot_def Let_def
           split: sum.splits prod.splits if_splits)

lemma n_subplots_vector:
  assumes "fig_col plot = Some (ColVector (map (\<lambda>s. Scalar (Str s)) labels))"
  shows "n_subplots plot = card (set labels)"
proof -
  have "inj (\<lambda>s. Scalar (Str s))" by (simp add: inj_def)
  then have "card ((\<lambda>s. Scalar (Str s)) ` set labels) = card (set labels)"
    by (simp add: card_image inj_on_def)
  moreover have "filter (\<lambda>l. l \<noteq> Scalar Null) (map (\<lambda>s. Scalar (Str s)) labels)
                   = map (\<lambda>s. Scalar (Str s)) labels"
    by (induction labels) simp_all
  ultimately show ?thesis
    using assms by (simp add: n_subplots_def facet_levels_def facet_column_def length_remdups_card_conv)
qed

lemma n_subplots_column:
  assumes "fig_col plot = Some (ColName c)" and "get_column (fig_data plot) c = Some cs"
  shows "n_subplots plot = card (set cs - {Null})"
proof -
  have "set (filter (\<lambda>l. l \<noteq> Scalar Null) (map Scalar cs)) = Scalar ` (set cs - {Null})"
    by auto
  moreover have "card (Scalar ` (set cs - {Null})) = card (set cs - {Null})"
    by (simp add: card_image inj_on_def)
  ultimately show ?thesis
    using assms
    by (simp add: n_subplots_def facet_levels_def facet_column_def length_remdups_card_conv)
qed


section \<open>Joining the labels needs strings\<close>

lemma save_and_display_not_TypeError:
  "fst (case savefig wa plot fname of
          (Inl e, w2) \<Rightarrow> (Inl e, w2)
        | (Inr u, w2) \<Rightarrow>
            (case Image_open w2 fname of
               (Inl e, w3) \<Rightarrow> (Inl e, w3)
             | (Inr img, w3) \<Rightarrow> (Inr (), Image_show w3 img))) \<noteq> Inl TypeError"
  by (auto simp: savefig_def Image_open_def split: pyval.splits option.splits)

lemma show_dist_TypeError:
  assumes "parse_args (show_dist_parser (get_numericals (heap w data))
                         (columns_values (heap w data))) args = Inr ns"
    and "check_valid_png (attr ns ''outfile'') = Inr rc" and "rc \<noteq> - 1"
    and "attr_list ns ''categoricals'' \<noteq> []"
  shows "(fst (show_dist get_numericals check_valid_png w data args) = Inl TypeError)
         = (fst (plot_dist_by_categoricals w data (attr_str ns ''var'')
                   (attr_list ns ''categoricals'')) = Inl TypeError)"
proof -
  obtain rp w1 where p: "plot_dist_by_categoricals w data (attr_str ns ''var'')
                            (attr_list ns ''categoricals'') = (rp, w1)"
    by (cases "plot_dist_by_categoricals w data (attr_str ns ''var'')
                 (attr_list ns ''categoricals'')")
  show ?thesis
  proof (cases rp)
    case (Inl e)
    with assms p show ?thesis by (simp add: show_dist_def)
  next
    case (Inr plot)
    with assms p save_and_display_not_TypeError
            [where wa = w1 and plot = plot and fname = "attr ns ''outfile''"]
    show ?thesis by (simp add: show_dist_def)
  qed
qed

lemma show_biv_dist_TypeError:
  assumes "parse_args (show_biv_dist_parser (get_numericals (heap w data))
                         (columns_values (heap w data))) args = Inr ns"
    and "check_valid_png (attr ns ''outfile'') = Inr rc" and "rc \<noteq> - 1"
    and "attr_list ns ''categoricals'' \<noteq> []"
  shows "(fst (show_biv_dist get_numericals check_valid_png w data args) = Inl TypeError)
         = (fst (plot_biv_dist_by_categoricals w data (attr_str ns ''v1'')
                   (attr_str ns ''v2'') (attr_str ns ''plot_type'')
                   (attr_list ns ''categoricals'')) = Inl TypeError)"
proof -
  obtain rp w1 where p: "plot_biv_dist_by_categoricals w data (attr_str ns ''v1'')
                   (attr_str ns ''v2'') (attr_str ns ''plot_type'')
                   (attr_list ns ''categoricals'') = (rp, w1)"
    by (cases "plot_biv_dist_by_categoricals w data (attr_str ns ''v1'')
                   (attr_str ns ''v2'') (attr_str ns ''plot_type'')
                   (attr_list ns ''categoricals'')")
  show ?thesis
  proof (cases rp)
    case (Inl e)
    with assms p show ?thesis by (simp add: show_biv_dist_def)
  next
    case (Inr plot)
    with assms p save_and_display_not_TypeError
            [where wa = w1 and plot = plot and fname = "attr ns ''outfile''"]
    show ?thesis by (simp add: show_biv_dist_def)
  qed
qed

lemma plot_dist_by_categoricals_TypeError:
  assumes "length cats > 1" and "set_index (heap w data) cats = Inr nf"
  shows "(fst (plot_dist_by_categoricals w data var cats) = Inl TypeError)
         = (join_rows (df_index nf) = Inl TypeError)"
proof -
  obtain r w' where p: "plot_dist_by_categoricals w data var cats = (r, w')"
    by (cases "plot_dist_by_categoricals w data var cats")
  from plot_dist_by_categoricals_multi [OF assms p] show ?thesis
    unfolding p by auto
qed

lemma plot_biv_dist_by_categoricals_TypeError:
  assumes "length cats > 1" and "set_index (heap w data) cats = Inr nf"
  shows "(fst (plot_biv_dist_by_categoricals w data v1 v2 pt cats) = Inl TypeError)
         = (join_rows (df_index nf) = Inl TypeError)"
proof -
  obtain r w' where p: "plot_biv_dist_by_categoricals w data v1 v2 pt cats = (r, w')"
    by (cases "plot_biv_dist_by_categoricals w data v1 v2 pt cats")
  from assms p have
    "(\<exists>e. join_rows (df_index nf) = Inl e \<and> r = Inl e) \<or>
     (\<exists>labels. join_rows (df_index nf) = Inr labels \<and> (r = Inl ValueError \<or> (\<exists>plot. r = Inr plot)))"
    by (auto simp: plot_biv_dist_by_categoricals_def Let_def
             split: sum.splits prod.splits dest!: displot_result)
  then show ?thesis
    unfolding p by auto
qed

lemma show_dist_categoricals_columns:
  assumes "parse_args (show_dist_parser nums cols) args = Inr ns"
  shows "set (attr_list ns ''categoricals'') \<subseteq> set cols"
  using show_dist_parser_names_ok [OF assms] by (auto simp: attr_list_def)

lemma show_biv_dist_categoricals_columns:
  assumes "parse_args (show_biv_dist_parser nums cols) args = Inr ns"
  shows "set (attr_list ns ''categoricals'') \<subseteq> set cols"
  using show_biv_dist_parser_names_ok [OF assms] by (auto simp: attr_list_def)

text \<open>
  C9. With two or more categoricals the labels are built by joining each row's values
  of the listed columns with \<open>_\<close>. In a call that gets past the file-name check, the
  handler ends with \<open>TypeError\<close> exactly when some listed column holds a value that
  is not a string; the labels built otherwise are the composite labels of the rows.
\<close>

theorem composite_labels_need_strings:
  "(parse_args (show_dist_parser (get_numericals (heap w data))
                  (columns_values (heap w data))) args = Inr ns \<and>
    check_valid_png (attr ns ''outfile'') = Inr rc \<and> rc \<noteq> - 1 \<and>
    wf_frame (heap w data) \<and> 2 \<le> length (attr_list ns ''categoricals'') \<longrightarrow>
    (fst (show_dist get_numericals check_valid_png w data args) = Inl TypeError)
    = (\<exists>c \<in> set (attr_list ns ''categoricals'').
         \<exists>cs x. get_column (heap w data) c = Some cs \<and> x \<in> set cs \<and> cell_string x = None)) \<and>
   (parse_args (show_biv_dist_parser (get_numericals (heap w data))
                  (columns_values (heap w data))) args = Inr ns \<and>
    check_valid_png (attr ns ''outfile'') = Inr rc \<and> rc \<noteq> - 1 \<and>
    wf_frame (heap w data) \<and> 2 \<le> length (attr_list ns ''categoricals'') \<longrightarrow>
    (fst (show_biv_dist get_numericals check_valid_png w data args) = Inl TypeError)
    = (\<exists>c \<in> set (attr_list ns ''categoricals'').
         \<exists>cs x. get_column (heap w data) c = Some cs \<and> x \<in> set cs \<and> cell_string x = None)) \<and>
   (wf_frame d \<and> set keys \<subseteq> set (columns_values d) \<and> 2 \<le> length keys \<and>
    set_index d keys = Inr nf \<and> join_rows (df_index nf) = Inr labels \<longrightarrow>
    length labels = length (df_index d) \<and>
    (\<forall>i < length (df_index d). composite_label d keys i = Some (labels ! i)))"
proof (intro conjI impI)
  let ?cats = "attr_list ns ''categoricals''"
  assume h: "parse_args (show_dist_parser (get_numericals (heap w data))
                  (columns_values (heap w data))) args = Inr ns \<and>
    check_valid_png (attr ns ''outfile'') = Inr rc \<and> rc \<noteq> - 1 \<and>
    wf_frame (heap w data) \<and> 2 \<le> length ?cats"
  then have sub: "set ?cats \<subseteq> set (columns_values (heap w data))"
    using show_dist_categoricals_columns by blast
  from h have len: "length ?cats > 1" and ne: "?cats \<noteq> []" by auto
  from set_index_rows [OF _ sub len] h obtain nf' where
    si: "set_index (heap w data) ?cats = Inr nf'"
    by blast
  from h have wf: "wf_frame (heap w data)" by simp
  from h show "(fst (show_dist get_numericals check_valid_png w data args) = Inl TypeError)
    = (\<exists>c \<in> set ?cats.
         \<exists>cs x. get_column (heap w data) c = Some cs \<and> x \<in> set cs \<and> cell_string x = None)"
    using show_dist_TypeError [of get_numericals w data args ns check_valid_png rc, OF _ _ _ ne]
      plot_dist_by_categoricals_TypeError [OF len si]
      join_rows_fails_iff [OF wf sub len si]
    by simp
next
  let ?cats = "attr_list ns ''categoricals''"
  assume h: "parse_args (show_biv_dist_parser (get_numericals (heap w data))
                  (columns_values (heap w data))) args = Inr ns \<and>
    check_valid_png (attr ns ''outfile'') = Inr rc \<and> rc \<noteq> - 1 \<and>
    wf_frame (heap w data) \<and> 2 \<le> length ?cats"
  then have sub: "set ?cats \<subseteq> set (columns_values (heap w data))"
    using show_biv_dist_categoricals_columns by blast
  from h have len: "length ?cats > 1" and ne: "?cats \<noteq> []" by auto
  from set_index_rows [OF _ sub len] h obtain nf' where
    si: "set_index (heap w data) ?cats = Inr nf'"
    by blast
  from h have wf: "wf_frame (heap w data)" by simp
  from h show "(fst (show_biv_dist get_numericals check_valid_png w data args) = Inl TypeError)
    = (\<exists>c \<in> set ?cats.
         \<exists>cs x. get_column (heap w data) c = Some cs \<and> x \<in> set cs \<and> cell_string x = None)"
    using show_biv_dist_TypeError
            [of get_numericals w data args ns check_valid_png rc, OF _ _ _ ne]
      plot_biv_dist_by_categoricals_TypeError [OF len si]
      join_rows_fails_iff [OF wf sub len si]
    by simp
next
  assume h: "wf_frame d \<and> set keys \<subseteq> set (columns_values d) \<and> 2 \<le> length keys \<and>
    set_index d keys = Inr nf \<and> join_rows (df_index nf) = Inr labels"
  then have len: "length keys > 1" by simp
  from h labels_are_composite [OF _ _ len, of d nf labels]
  show "length labels = length (df_index d)" by blast
next
  assume h: "wf_frame d \<and> set keys \<subseteq> set (columns_values d) \<and> 2 \<le> length keys \<and>
    set_index d keys = Inr nf \<and> join_rows (df_index nf) = Inr labels"
  then have len: "length keys > 1" by simp
  from h labels_are_composite [OF _ _ len, of d nf labels]
  show "\<forall>i < length (df_index d). composite_label d keys i = Some (labels ! i)" by blast
qed

theorem composite_labels_need_strings_witness:
  "fst (show_dist numeric_columns png_only example_world 0
          [''age'', ''-c'', ''sex'', ''height'']) = Inl TypeError \<and>
   fst (show_biv_dist numeric_columns png_only example_world 0
          [''age'', ''height'', ''-c'', ''sex'', ''age'']) = Inl TypeError \<and>
   composite_label example_frame [''sex'', ''city''] 2 = Some ''f_bath''"
proof -
  have wf: "wf_frame (heap example_world 0)" by code_simp
  have ne: "(0::int) \<noteq> - 1" by simp
  have "case parse_args (show_dist_parser (numeric_columns (heap example_world 0))
                           (columns_values (heap example_world 0)))
               [''age'', ''-c'', ''sex'', ''height''] of
          Inl e \<Rightarrow> False
        | Inr ns \<Rightarrow> png_only (attr ns ''outfile'') = Inr 0
                    \<and> attr_list ns ''categoricals'' = [''sex'', ''height'']"
    by code_simp
  then obtain ns1 where p1:
    "parse_args (show_dist_parser (numeric_columns (heap example_world 0))
                   (columns_values (heap example_world 0)))
       [''age'', ''-c'', ''sex'', ''height''] = Inr ns1"
    "png_only (attr ns1 ''outfile'') = Inr 0"
    "attr_list ns1 ''categoricals'' = [''sex'', ''height'']"
    by (auto split: sum.splits)
  have x1: "\<exists>c \<in> set (attr_list ns1 ''categoricals'').
              \<exists>cs x. get_column (heap example_world 0) c = Some cs \<and> x \<in> set cs
                     \<and> cell_string x = None"
  proof -
    have "get_column (heap example_world 0) ''height''
            = Some [Num 170, Num 182, Num 165, Num 170]"
      by (simp add: example_world_def example_frame_def get_column_def)
    moreover have "cell_string (Num 170) = None" by (simp add: cell_string_def)
    ultimately show ?thesis
      unfolding p1(3) by fastforce
  qed
  from composite_labels_need_strings
         [where get_numericals = numeric_columns and w = example_world and data = 0
            and args = "[''age'', ''-c'', ''sex'', ''height'']" and ns = ns1
            and check_valid_png = png_only and rc = 0, THEN conjunct1]
       p1 wf ne x1
  have c1: "fst (show_dist numeric_columns png_only example_world 0
                   [''age'', ''-c'', ''sex'', ''height'']) = Inl TypeError"
    by simp
  have "case parse_args (show_biv_dist_parser (numeric_columns (heap example_world 0))
                           (columns_values (heap example_world 0)))
               [''age'', ''height'', ''-c'', ''sex'', ''age''] of
          Inl e \<Rightarrow> False
        | Inr ns \<Rightarrow> png_only (attr ns ''outfile'') = Inr 0
                    \<and> attr_list ns ''categoricals'' = [''sex'', ''age'']"
    by code_simp
  then obtain ns2 where p2:
    "parse_args (show_biv_dist_parser (numeric_columns (heap example_world 0))
                   (columns_values (heap example_world 0)))
       [''age'', ''height'', ''-c'', ''sex'', ''age''] = Inr ns2"
    "png_only (attr ns2 ''outfile'') = Inr 0"
    "attr_list ns2 ''categoricals'' = [''sex'', ''age'']"
    by (auto split: sum.splits)
  have x2: "\<exists>c \<in> set (attr_list ns2 ''categoricals'').
              \<exists>cs x. get_column (heap example_world 0) c = Some cs \<and> x \<in> set cs
                     \<and> cell_string x = None"
  proof -
    have "get_column (heap example_world 0) ''age''
            = Some [Num 31, Num 45, Num 31, Num 52]"
      by (simp add: example_world_def example_frame_def get_column_def)
    moreover have "cell_string (Num 31) = None" by (simp add: cell_string_def)
    ultimately show ?thesis
      unfolding p2(3) by fastforce
  qed
  from composite_labels_need_strings
         [where get_numericals = numeric_columns and w = example_world and data = 0
            and args = "[''age'', ''height'', ''-c'', ''sex'', ''age'']" and ns = ns2
            and check_valid_png = png_only and rc = 0, THEN conjunct2, THEN conjunct1]
       p2 wf ne x2
  have c2: "fst (show_biv_dist numeric_columns png_only example_world 0
                   [''age'', ''height'', ''-c'', ''sex'', ''age'']) = Inl TypeError"
    by simp
  have "case set_index example_frame [''sex'', ''city''] of
          Inl e \<Rightarrow> False
        | Inr nf \<Rightarrow> join_rows (df_index nf) = Inr [''f_york'', ''m_york'', ''f_bath'', ''m_york'']"
    by code_simp
  then obtain nf where s3: "set_index example_frame [''sex'', ''city''] = Inr nf"
    "join_rows (df_index nf) = Inr [''f_york'', ''m_york'', ''f_bath'', ''m_york'']"
    by (auto split: sum.splits)
  have wf3: "wf_frame example_frame" by code_simp
  have sub3: "set [''sex'', ''city''] \<subseteq> set (columns_values example_frame)" by code_simp
  from composite_labels_need_strings
         [where d = example_frame and keys = "[''sex'', ''city'']" and nf = nf
            and labels = "[''f_york'', ''m_york'', ''f_bath'', ''m_york'']",
          THEN conjunct2, THEN conjunct2]
       s3 wf3 sub3
  have "\<forall>i < length (df_index example_frame).
          composite_label example_frame [''sex'', ''city''] i
            = Some ([''f_york'', ''m_york'', ''f_bath'', ''m_york''] ! i)"
    by simp
  then have c3: "composite_label example_frame [''sex'', ''city''] 2 = Some ''f_bath''"
    by (simp add: example_frame_def)
  from c1 c2 c3 show ?thesis by blast
qed


section \<open>The facet grid\<close>

lemma plot_biv_dist_by_categoricals_multi_col:
  assumes "length cats > 1" and "set_index (heap w data) cats = Inr nf"
    and "plot_biv_dist_by_categoricals w data v1 v2 pt cats = (Inr plot, w')"
  shows "\<exists>labels. join_rows (df_index nf) = Inr labels \<and>
            fig_col plot = Some (ColVector (map (\<lambda>s. Scalar (Str s)) labels)) \<and>
            fig_col_wrap plot = Some 3"
  using assms
  by (auto simp: plot_biv_dist_by_categoricals_def Let_def
           split: sum.splits prod.splits dest!: displot_result)

lemma plot_dist_by_categoricals_multi_col:
  assumes "length cats > 1" and "set_index (heap w data) cats = Inr nf"
    and "plot_dist_by_categoricals w data var cats = (Inr plot, w')"
  shows "\<exists>labels. join_rows (df_index nf) = Inr labels \<and>
            fig_col plot = Some (ColVector (map (\<lambda>s. Scalar (Str s)) labels)) \<and>
            fig_col_wrap plot = Some 3 \<and>
            fig_data plot = nf\<lparr> df_index := map (\<lambda>s. Scalar (Str s)) labels \<rparr>"
  using plot_dist_by_categoricals_multi [OF assms] by auto

lemma composite_label_set:
  assumes "length labels = n" and "\<forall>i < n. composite_label d keys i = Some (labels ! i)"
  shows "set labels = {s. \<exists>i < n. composite_label d keys i = Some s}"
  using assms by (auto simp: set_conv_nth)

lemma facets_of_plot:
  assumes wf: "wf_frame d" and sub: "set cats \<subseteq> set (columns_values d)" and ne: "cats \<noteq> []"
    and single: "\<And>c. cats = [c] \<Longrightarrow>
                   fig_col plot = Some (ColName c) \<and> fig_col_wrap plot = Some 3 \<and>
                   fig_data plot = d \<and> get_column d c \<noteq> None"
    and multi: "\<And>nf. length cats > 1 \<Longrightarrow> set_index d cats = Inr nf \<Longrightarrow>
                  \<exists>labels. join_rows (df_index nf) = Inr labels \<and>
                    fig_col plot = Some (ColVector (map (\<lambda>s. Scalar (Str s)) labels)) \<and>
                    fig_col_wrap plot = Some 3"
  shows "fig_col_wrap plot = Some 3 \<and>
         (\<forall>c. cats = [c] \<longrightarrow>
            (\<exists>cs. get_column d c = Some cs \<and> n_subplots plot = card (set cs - {Null}))) \<and>
         (2 \<le> length cats \<longrightarrow>
            n_subplots plot
              = card {s. \<exists>i < length (df_index d). composite_label d cats i = Some s})"
proof (cases "length cats > 1")
  case False
  with ne obtain c where c: "cats = [c]"
    by (cases cats) auto
  from single [OF c] obtain cs where "get_column d c = Some cs" by auto
  with single [OF c] n_subplots_column [of plot c cs] c show ?thesis
    by auto
next
  case True
  from set_index_rows [OF wf sub True] obtain nf where si: "set_index d cats = Inr nf"
    by blast
  from multi [OF True si] obtain labels where l: "join_rows (df_index nf) = Inr labels"
    "fig_col plot = Some (ColVector (map (\<lambda>s. Scalar (Str s)) labels))"
    "fig_col_wrap plot = Some 3"
    by blast
  from labels_are_composite [OF wf sub True si l(1)]
  have "set labels = {s. \<exists>i < length (df_index d). composite_label d cats i = Some s}"
    by (intro composite_label_set) simp_all
  with n_subplots_vector [OF l(2)] l(3) True show ?thesis
    by auto
qed

text \<open>
  C5. When a handler returns normally for a call with a non-empty categoricals list,
  the figure it saved is a facet grid wrapped at 3 columns. With one categorical the
  number of subplots is the number of distinct (non-missing) values of that column;
  with two or more it is the number of distinct composite labels of the rows.
\<close>

theorem facet_grid_subplots:
  "(parse_args (show_dist_parser (get_numericals (heap w data))
                  (columns_values (heap w data))) args = Inr ns \<and>
    check_valid_png (attr ns ''outfile'') = Inr rc \<and> rc \<noteq> - 1 \<and>
    wf_frame (heap w data) \<and> attr_list ns ''categoricals'' \<noteq> [] \<and>
    show_dist get_numericals check_valid_png w data args = (Inr (), w') \<longrightarrow>
    (\<exists>f plot. files w' f = Some plot \<and> fig_col_wrap plot = Some 3 \<and>
       (\<forall>c. attr_list ns ''categoricals'' = [c] \<longrightarrow>
          (\<exists>cs. get_column (heap w data) c = Some cs \<and>
                n_subplots plot = card (set cs - {Null}))) \<and>
       (2 \<le> length (attr_list ns ''categoricals'') \<longrightarrow>
          n_subplots plot
            = card {s. \<exists>i < length (df_index (heap w data)).
                        composite_label (heap w data) (attr_list ns ''categoricals'') i
                          = Some s}))) \<and>
   (parse_args (show_biv_dist_parser (get_numericals (heap w data))
                  (columns_values (heap w data))) args = Inr ns \<and>
    check_valid_png (attr ns ''outfile'') = Inr rc \<and> rc \<noteq> - 1 \<and>
    wf_frame (heap w data) \<and> attr_list ns ''categoricals'' \<noteq> [] \<and>
    show_biv_dist get_numericals check_valid_png w data args = (Inr (), w') \<longrightarrow>
    (\<exists>f plot. files w' f = Some plot \<and> fig_col_wrap plot = Some 3 \<and>
       (\<forall>c. attr_list ns ''categoricals'' = [c] \<longrightarrow>
          (\<exists>cs. get_column (heap w data) c = Some cs \<and>
                n_subplots plot = card (set cs - {Null}))) \<and>
       (2 \<le> length (attr_list ns ''categoricals'') \<longrightarrow>
          n_subplots plot
            = card {s. \<exists>i < length (df_index (heap w data)).
                        composite_label (heap w data) (attr_list ns ''categoricals'') i
                          = Some s})))"
proof (intro conjI impI)
  let ?cats = "attr_list ns ''categoricals''"
  assume h: "parse_args (show_dist_parser (get_numericals (heap w data))
                  (columns_values (heap w data))) args = Inr ns \<and>
    check_valid_png (attr ns ''outfile'') = Inr rc \<and> rc \<noteq> - 1 \<and>
    wf_frame (heap w data) \<and> ?cats \<noteq> [] \<and>
    show_dist get_numericals check_valid_png w data args = (Inr (), w')"
  then have sub: "set ?cats \<subseteq> set (columns_values (heap w data))"
    using show_dist_categoricals_columns by blast
  from h have wf: "wf_frame (heap w data)" and ne: "?cats \<noteq> []" by simp_all
  from show_dist_success [of get_numericals w data args ns check_valid_png rc w'] h
  obtain plot w1 f where
    p: "plot_dist_by_categoricals w data (attr_str ns ''var'') ?cats = (Inr plot, w1)"
    and r: "files w' = (files w1)(f \<mapsto> plot)"
    by auto
  have "fig_col_wrap plot = Some 3 \<and>
         (\<forall>c. ?cats = [c] \<longrightarrow>
            (\<exists>cs. get_column (heap w data) c = Some cs \<and>
                  n_subplots plot = card (set cs - {Null}))) \<and>
         (2 \<le> length ?cats \<longrightarrow>
            n_subplots plot
              = card {s. \<exists>i < length (df_index (heap w data)).
                          composite_label (heap w data) ?cats i = Some s})"
  proof (rule facets_of_plot [OF wf sub ne])
    fix c assume "?cats = [c]"
    with p plot_dist_by_categoricals_single [of w data "attr_str ns ''var''" c plot w1]
    show "fig_col plot = Some (ColName c) \<and> fig_col_wrap plot = Some 3 \<and>
          fig_data plot = heap w data \<and> get_column (heap w data) c \<noteq> None"
      by simp
  next
    fix nf assume "length ?cats > 1" "set_index (heap w data) ?cats = Inr nf"
    from plot_dist_by_categoricals_multi_col [OF this p]
    show "\<exists>labels. join_rows (df_index nf) = Inr labels \<and>
            fig_col plot = Some (ColVector (map (\<lambda>s. Scalar (Str s)) labels)) \<and>
            fig_col_wrap plot = Some 3"
      by blast
  qed
  with r show "\<exists>f plot. files w' f = Some plot \<and> fig_col_wrap plot = Some 3 \<and>
       (\<forall>c. ?cats = [c] \<longrightarrow>
          (\<exists>cs. get_column (heap w data) c = Some cs \<and>
                n_subplots plot = card (set cs - {Null}))) \<and>
       (2 \<le> length ?cats \<longrightarrow>
          n_subplots plot
            = card {s. \<exists>i < length (df_index (heap w data)).
                        composite_label (heap w data) ?cats i = Some s})"
    by (intro exI [of _ f] exI [of _ plot]) simp
next
  let ?cats = "attr_list ns ''categoricals''"
  assume h: "parse_args (show_biv_dist_parser (get_numericals (heap w data))
                  (columns_values (heap w data))) args = Inr ns \<and>
    check_valid_png (attr ns ''outfile'') = Inr rc \<and> rc \<noteq> - 1 \<and>
    wf_frame (heap w data) \<and> ?cats \<noteq> [] \<and>
    show_biv_dist get_numericals check_valid_png w data args = (Inr (), w')"
  then have sub: "set ?cats \<subseteq> set (columns_values (heap w data))"
    using show_biv_dist_categoricals_columns by blast
  from h have wf: "wf_frame (heap w data)" and ne: "?cats \<noteq> []" by simp_all
  from show_biv_dist_success [of get_numericals w data args ns check_valid_png rc w'] h
  obtain plot w1 f where
    p: "plot_biv_dist_by_categoricals w data (attr_str ns ''v1'') (attr_str ns ''v2'')
          (attr_str ns ''plot_type'') ?cats = (Inr plot, w1)"
    and r: "files w' = (files w1)(f \<mapsto> plot)"
    by auto
  have "fig_col_wrap plot = Some 3 \<and>
         (\<forall>c. ?cats = [c] \<longrightarrow>
            (\<exists>cs. get_column (heap w data) c = Some cs \<and>
                  n_subplots plot = card (set cs - {Null}))) \<and>
         (2 \<le> length ?cats \<longrightarrow>
            n_subplots plot
              = card {s. \<exists>i < length (df_index (heap w data)).
                          composite_label (heap w data) ?cats i = Some s})"
  proof (rule facets_of_plot [OF wf sub ne])
    fix c assume "?cats = [c]"
    with p plot_biv_dist_by_categoricals_single
             [of w data "attr_str ns ''v1''" "attr_str ns ''v2''" "attr_str ns ''plot_type''"
                 c plot w1]
    show "fig_col plot = Some (ColName c) \<and> fig_col_wrap plot = Some 3 \<and>
          fig_data plot = heap w data \<and> get_column (heap w data) c \<noteq> None"
      by simp
  next
    fix nf assume "length ?cats > 1" "set_index (heap w data) ?cats = Inr nf"
    from plot_biv_dist_by_categoricals_multi_col [OF this p]
    show "\<exists>labels. join_rows (df_index nf) = Inr labels \<and>
            fig_col plot = Some (ColVector (map (\<lambda>s. Scalar (Str s)) labels)) \<and>
            fig_col_wrap plot = Some 3"
      by blast
  qed
  with r show "\<exists>f plot. files w' f = Some plot \<and> fig_col_wrap plot = Some 3 \<and>
       (\<forall>c. ?cats = [c] \<longrightarrow>
          (\<exists>cs. get_column (heap w data) c = Some cs \<and>
                n_subplots plot = card (set cs - {Null}))) \<and>
       (2 \<le> length ?cats \<longrightarrow>
          n_subplots plot
            = card {s. \<exists>i < length (df_index (heap w data)).
                        composite_label (heap w data) ?cats i = Some s})"
    by (intro exI [of _ f] exI [of _ plot]) simp
qed

theorem facet_grid_subplots_witness:
  "(\<exists>f plot. files (snd (show_dist numeric_columns png_only example_world 0
                            [''age'', ''-c'', ''sex''])) f = Some plot \<and>
             fig_col_wrap plot = Some 3 \<and> n_subplots plot = 2) \<and>
   (\<exists>f plot. files (snd (show_biv_dist numeric_columns png_only example_world 0
                            [''age'', ''height'', ''-c'', ''sex'', ''city''])) f = Some plot \<and>
             fig_col_wrap plot = Some 3 \<and> n_subplots plot = 3)"
proof -
  have wf: "wf_frame (heap example_world 0)" by code_simp
  have ne: "(0::int) \<noteq> - 1" by simp
  have hp: "heap example_world 0 = example_frame" by (simp add: example_world_def)
  define w1 where "w1 = snd (show_dist numeric_columns png_only example_world 0
                                [''age'', ''-c'', ''sex''])"
  have "case parse_args (show_dist_parser (numeric_columns (heap example_world 0))
                           (columns_values (heap example_world 0)))
               [''age'', ''-c'', ''sex''] of
          Inl e \<Rightarrow> False
        | Inr ns \<Rightarrow> png_only (attr ns ''outfile'') = Inr 0
                    \<and> attr_list ns ''categoricals'' = [''sex'']"
    by code_simp
  then obtain ns1 where p1:
    "parse_args (show_dist_parser (numeric_columns (heap example_world 0))
                   (columns_values (heap example_world 0)))
       [''age'', ''-c'', ''sex''] = Inr ns1"
    "png_only (attr ns1 ''outfile'') = Inr 0"
    "attr_list ns1 ''categoricals'' = [''sex'']"
    by (auto split: sum.splits)
  have "fst (show_dist numeric_columns png_only example_world 0
               [''age'', ''-c'', ''sex'']) = Inr ()"
    by code_simp
  then have r1: "show_dist numeric_columns png_only example_world 0
                   [''age'', ''-c'', ''sex''] = (Inr (), w1)"
    unfolding w1_def by (metis prod.collapse)
  have n1: "attr_list ns1 ''categoricals'' \<noteq> []" unfolding p1(3) by simp
  from facet_grid_subplots
         [where get_numericals = numeric_columns and w = example_world and data = 0
            and args = "[''age'', ''-c'', ''sex'']" and ns = ns1
            and check_valid_png = png_only and rc = 0 and w' = w1, THEN conjunct1]
       p1(1,2) r1 wf ne n1
  obtain f1 plot1 where a1: "files w1 f1 = Some plot1" "fig_col_wrap plot1 = Some 3"
    "\<forall>c. attr_list ns1 ''categoricals'' = [c] \<longrightarrow>
       (\<exists>cs. get_column (heap example_world 0) c = Some cs \<and>
             n_subplots plot1 = card (set cs - {Null}))"
    by blast
  have g1: "get_column (heap example_world 0) ''sex''
              = Some [Str ''f'', Str ''m'', Str ''f'', Str ''m'']"
    by (simp add: example_world_def example_frame_def get_column_def)
  from a1(3) p1(3) g1
  have "n_subplots plot1 = card (set [Str ''f'', Str ''m'', Str ''f'', Str ''m''] - {Null})"
    by auto
  also have "set [Str ''f'', Str ''m'', Str ''f'', Str ''m''] - {Null} = {Str ''f'', Str ''m''}"
    by auto
  also have "card {Str ''f'', Str ''m''} = 2"
    by simp
  finally have s1: "n_subplots plot1 = 2" .
  with a1 have c1: "\<exists>f plot. files w1 f = Some plot \<and>
             fig_col_wrap plot = Some 3 \<and> n_subplots plot = 2"
    by blast
  define w2 where "w2 = snd (show_biv_dist numeric_columns png_only example_world 0
                                [''age'', ''height'', ''-c'', ''sex'', ''city''])"
  have "case parse_args (show_biv_dist_parser (numeric_columns (heap example_world 0))
                           (columns_values (heap example_world 0)))
               [''age'', ''height'', ''-c'', ''sex'', ''city''] of
          Inl e \<Rightarrow> False
        | Inr ns \<Rightarrow> png_only (attr ns ''outfile'') = Inr 0
                    \<and> attr_list ns ''categoricals'' = [''sex'', ''city'']"
    by code_simp
  then obtain ns2 where p2:
    "parse_args (show_biv_dist_parser (numeric_columns (heap example_world 0))
                   (columns_values (heap example_world 0)))
       [''age'', ''height'', ''-c'', ''sex'', ''city''] = Inr ns2"
    "png_only (attr ns2 ''outfile'') = Inr 0"
    "attr_list ns2 ''categoricals'' = [''sex'', ''city'']"
    by (auto split: sum.splits)
  have "fst (show_biv_dist numeric_columns png_only example_world 0
               [''age'', ''height'', ''-c'', ''sex'', ''city'']) = Inr ()"
    by code_simp
  then have r2: "show_biv_dist numeric_columns png_only example_world 0
                   [''age'', ''height'', ''-c'', ''sex'', ''city''] = (Inr (), w2)"
    unfolding w2_def by (metis prod.collapse)
  have n2: "attr_list ns2 ''categoricals'' \<noteq> []" unfolding p2(3) by simp
  from facet_grid_subplots
         [where get_numericals = numeric_columns and w = example_world and data = 0
            and args = "[''age'', ''height'', ''-c'', ''sex'', ''city'']" and ns = ns2
            and check_valid_png = png_only and rc = 0 and w' = w2, THEN conjunct2]
       p2(1,2) r2 wf ne n2
  obtain f2 plot2 where a2: "files w2 f2 = Some plot2" "fig_col_wrap plot2 = Some 3"
    "2 \<le> length (attr_list ns2 ''categoricals'') \<longrightarrow>
          n_subplots plot2
            = card {s. \<exists>i < length (df_index (heap example_world 0)).
                        composite_label (heap example_world 0)
                          (attr_list ns2 ''categoricals'') i = Some s}"
    by blast
  have l0: "composite_label example_frame [''sex'', ''city''] 0 = Some ''f_york''"
    by code_simp
  have l1: "composite_label example_frame [''sex'', ''city''] 1 = Some ''m_york''"
    by code_simp
  have l2: "composite_label example_frame [''sex'', ''city''] 2 = Some ''f_bath''"
    by code_simp
  have l3: "composite_label example_frame [''sex'', ''city''] 3 = Some ''m_york''"
    by code_simp
  have len: "length (df_index example_frame) = 4"
    by (simp add: example_frame_def)
  have lt: "\<And>i::nat. i < 4 \<longleftrightarrow> i = 0 \<or> i = 1 \<or> i = 2 \<or> i = 3"
    by arith
  have "{s. \<exists>i < length (df_index example_frame).
              composite_label example_frame [''sex'', ''city''] i = Some s}
          = {''f_york'', ''m_york'', ''f_bath''}"
    unfolding len lt using l0 l1 l2 l3 by auto
  moreover have "card {''f_york'', ''m_york'', ''f_bath''} = 3"
    by simp
  ultimately have "n_subplots plot2 = 3"
    using a2(3) unfolding p2(3) hp by simp
  with a2 have c2: "\<exists>f plot. files w2 f = Some plot \<and>
             fig_col_wrap plot = Some 3 \<and> n_subplots plot = 3"
    by blast
  from c1 c2 show ?thesis unfolding w1_def w2_def by blast
qed


section \<open>When the bivariate handler returns normally\<close>

lemma plot_biv_dist_returns:
  assumes "get_column (heap w data) v1 \<noteq> None" "get_column (heap w data) v2 \<noteq> None"
  shows "\<exists>plot w1. plot_biv_dist w data v1 v2 pt = (Inr plot, w1)"
  using assms by (auto simp: plot_biv_dist_def displot_def Let_def)

lemma plot_biv_dist_by_categoricals_returns:
  assumes wf: "wf_frame (heap w data)" and al: "data < next_ref w"
    and v1: "get_column (heap w data) v1 \<noteq> None" and v2: "get_column (heap w data) v2 \<noteq> None"
    and ne: "cats \<noteq> []" and sub: "set cats \<subseteq> set (columns_values (heap w data))"
    and strs: "2 \<le> length cats \<longrightarrow>
               (\<forall>c \<in> set cats. \<forall>cs. get_column (heap w data) c = Some cs \<longrightarrow>
                  (\<forall>x \<in> set cs. cell_string x \<noteq> None))"
  shows "\<exists>plot w1. plot_biv_dist_by_categoricals w data v1 v2 pt cats = (Inr plot, w1)"
proof (cases "length cats > 1")
  case False
  with ne obtain c where c: "cats = [c]"
    by (cases cats) auto
  with sub have "get_column (heap w data) c \<noteq> None"
    by (simp add: get_column_present)
  with v1 v2 show ?thesis
    by (auto simp: c plot_biv_dist_by_categoricals_def displot_def Let_def)
next
  case True
  from set_index_rows [OF wf sub True] obtain nf where si: "set_index (heap w data) cats = Inr nf"
    by blast
  from strs True have "\<not> (\<exists>c \<in> set cats. \<exists>cs x. get_column (heap w data) c = Some cs \<and>
                            x \<in> set cs \<and> cell_string x = None)"
    by auto
  with join_rows_fails_iff [OF wf sub True si] have "join_rows (df_index nf) \<noteq> Inl TypeError"
    by simp
  then obtain labels where jr: "join_rows (df_index nf) = Inr labels"
    using join_rows_Inl [of "df_index nf"] by (cases "join_rows (df_index nf)") auto
  from labels_are_composite(1) [OF wf sub True si jr]
  have len: "length labels = length (df_index (heap w data))" .
  from al have d: "data \<noteq> next_ref w" by simp
  from True si jr len d v1 v2 show ?thesis
    by (auto simp: plot_biv_dist_by_categoricals_def displot_def Let_def)
qed

lemma save_and_display_returns:
  "\<exists>w'. (case savefig wa plot (PStr f) of
            (Inl e, w2) \<Rightarrow> (Inl e, w2)
          | (Inr u, w2) \<Rightarrow>
              (case Image_open w2 (PStr f) of
                 (Inl e, w3) \<Rightarrow> (Inl e, w3)
               | (Inr img, w3) \<Rightarrow> (Inr (), Image_show w3 img))) = (Inr (), w')"
  by (simp add: savefig_def Image_open_def)

lemma show_biv_dist_returns:
  assumes p: "parse_args (show_biv_dist_parser (get_numericals (heap w data))
                         (columns_values (heap w data))) args = Inr ns"
    and c: "check_valid_png (attr ns ''outfile'') = Inr rc" and rc: "rc \<noteq> - 1"
    and f: "attr ns ''outfile'' = PStr f"
    and wf: "wf_frame (heap w data)" and al: "data < next_ref w"
    and v1: "get_column (heap w data) (attr_str ns ''v1'') \<noteq> None"
    and v2: "get_column (heap w data) (attr_str ns ''v2'') \<noteq> None"
    and strs: "2 \<le> length (attr_list ns ''categoricals'') \<longrightarrow>
               (\<forall>c \<in> set (attr_list ns ''categoricals'').
                  \<forall>cs. get_column (heap w data) c = Some cs \<longrightarrow>
                    (\<forall>x \<in> set cs. cell_string x \<noteq> None))"
  shows "\<exists>w'. show_biv_dist get_numericals check_valid_png w data args = (Inr (), w')"
proof -
  define q where "q = (if attr_list ns ''categoricals'' = []
                        then plot_biv_dist w data (attr_str ns ''v1'') (attr_str ns ''v2'')
                               (attr_str ns ''plot_type'')
                        else plot_biv_dist_by_categoricals w data (attr_str ns ''v1'')
                               (attr_str ns ''v2'') (attr_str ns ''plot_type'')
                               (attr_list ns ''categoricals''))"
  have sub: "set (attr_list ns ''categoricals'') \<subseteq> set (columns_values (heap w data))"
    using show_biv_dist_categoricals_columns [OF p] .
  have "\<exists>plot w1. q = (Inr plot, w1)"
  proof (cases "attr_list ns ''categoricals'' = []")
    case True
    with plot_biv_dist_returns [OF v1 v2] show ?thesis
      by (simp add: q_def)
  next
    case False
    with plot_biv_dist_by_categoricals_returns [OF wf al v1 v2 False sub strs] show ?thesis
      by (simp add: q_def)
  qed
  then obtain plot w1 where q: "q = (Inr plot, w1)"
    by blast
  from save_and_display_returns [where wa = w1 and plot = plot and f = f] obtain w' where
    "(case savefig w1 plot (PStr f) of
        (Inl e, w2) \<Rightarrow> (Inl e, w2)
      | (Inr u, w2) \<Rightarrow>
          (case Image_open w2 (PStr f) of
             (Inl e, w3) \<Rightarrow> (Inl e, w3)
           | (Inr img, w3) \<Rightarrow> (Inr (), Image_show w3 img))) = (Inr (), w')"
    by blast
  then have "show_biv_dist get_numericals check_valid_png w data args = (Inr (), w')"
    unfolding show_biv_dist_def p sum.case f c [unfolded f] using rc q [unfolded q_def]
    by simp
  then show ?thesis by blast
qed

lemma show_biv_dist_saved_kind:
  assumes "parse_args (show_biv_dist_parser (get_numericals (heap w data))
                         (columns_values (heap w data))) args = Inr ns"
    and "check_valid_png (attr ns ''outfile'') = Inr rc" and "rc \<noteq> - 1"
    and "show_biv_dist get_numericals check_valid_png w data args = (Inr (), w')"
  shows "\<exists>f plot. attr ns ''outfile'' = PStr f \<and> files w' f = Some plot \<and>
           fig_kind plot
             = (if attr_str ns ''plot_type'' = ''gaussian'' then ''kde'' else ''hist'')"
proof -
  from show_biv_dist_success [OF assms]
  obtain plot w1 f where
    p: "(if attr_list ns ''categoricals'' = []
         then plot_biv_dist w data (attr_str ns ''v1'') (attr_str ns ''v2'')
                (attr_str ns ''plot_type'')
         else plot_biv_dist_by_categoricals w data (attr_str ns ''v1'')
                (attr_str ns ''v2'') (attr_str ns ''plot_type'')
                (attr_list ns ''categoricals'')) = (Inr plot, w1)"
    and f: "attr ns ''outfile'' = PStr f"
    and r: "files w' = (files w1)(f \<mapsto> plot)"
    by blast
  have "fig_kind plot
          = (if attr_str ns ''plot_type'' = ''gaussian'' then ''kde'' else ''hist'')"
  proof (cases "attr_list ns ''categoricals'' = []")
    case True
    with p have "plot_biv_dist w data (attr_str ns ''v1'') (attr_str ns ''v2'')
                   (attr_str ns ''plot_type'') = (Inr plot, w1)"
      by simp
    then show ?thesis by (rule plot_biv_dist_kind)
  next
    case False
    with p have "plot_biv_dist_by_categoricals w data (attr_str ns ''v1'')
                   (attr_str ns ''v2'') (attr_str ns ''plot_type'')
                   (attr_list ns ''categoricals'') = (Inr plot, w1)"
      by simp
    then show ?thesis by (rule plot_biv_dist_by_categoricals_kind)
  qed
  with f r show ?thesis
    by (intro exI [of _ f] exI [of _ plot]) simp
qed


section \<open>The strings a positional argument is given\<close>

lemma classify_pattern_of:
  "classify actions args = Inr (indices, pattern) \<Longrightarrow> pattern_of args pattern"
proof (induction args arbitrary: indices pattern)
  case Nil
  then show ?case by (simp add: pattern_of_def)
next
  case (Cons arg_string rest)
  show ?case
  proof (cases "arg_string = ''--''")
    case True
    with Cons.prems have p: "pattern = CHR ''-'' # map (\<lambda>_. CHR ''A'') rest"
      by simp
    have "filter (\<lambda>c. c = CHR ''-'') (map (\<lambda>_. CHR ''A'') rest) = []"
      by (induction rest) simp_all
    with True show ?thesis
      by (auto simp: pattern_of_def p nth_Cons split: nat.splits)
  next
    case False
    with Cons.prems obtain c0 indices' pattern' where
      c: "classify actions rest = Inr (indices', pattern')"
      and p: "pattern = c0 # pattern'" and c0: "c0 \<noteq> CHR ''-''"
      by (auto split: sum.splits prod.splits if_splits)
    from Cons.IH [OF c] c0 show ?thesis
      by (auto simp: pattern_of_def p nth_Cons split: nat.splits)
  qed
qed

lemma match_atoms_bound:
  "n \<in> set (match_atoms as s) \<Longrightarrow>
   (\<forall>cs q. (cs, q) \<in> set as \<longrightarrow> q = ZeroOrMore \<longrightarrow> cs = ''-'') \<Longrightarrow>
   n \<le> length s \<and>
   length (filter (\<lambda>c. c \<noteq> CHR ''-'') (take n s))
     \<le> length (filter (\<lambda>p. snd p \<noteq> ZeroOrMore) as)"
proof (induction as s arbitrary: n rule: match_atoms.induct)
  case (1 s)
  then show ?case by simp
next
  case (2 cs as)
  then show ?case by simp
next
  case (3 cs as c s)
  from "3.prems"(2) have ok: "\<forall>cs q. (cs, q) \<in> set as \<longrightarrow> q = ZeroOrMore \<longrightarrow> cs = ''-''"
    by auto
  from "3.prems"(1) obtain m where m: "m \<in> set (match_atoms as s)" "n = Suc m" "c \<in> set cs"
    by (auto split: if_splits)
  from "3.IH" [OF m(3) m(1) ok] show ?case
    by (simp add: m(2))
next
  case (4 cs as)
  from "4.prems"(2) have ok: "\<forall>cs q. (cs, q) \<in> set as \<longrightarrow> q = ZeroOrMore \<longrightarrow> cs = ''-''"
    by auto
  from "4.prems"(1) have "n \<in> set (match_atoms as [])" by simp
  from "4.IH" [OF this ok] show ?case by simp
next
  case (5 cs as c s)
  from "5.prems"(2) have ok: "\<forall>cs q. (cs, q) \<in> set as \<longrightarrow> q = ZeroOrMore \<longrightarrow> cs = ''-''"
    by auto
  from "5.prems"(1) consider
      (take) m where "m \<in> set (match_atoms as s)" "n = Suc m" "c \<in> set cs"
    | (skip) "n \<in> set (match_atoms as (c # s))"
    by (auto split: if_splits)
  then show ?case
  proof cases
    case take
    from "5.IH"(1) [OF take(3) take(1) ok] show ?thesis
      by (simp add: take(2))
  next
    case skip
    from "5.IH"(2) [OF skip ok] have
      "n \<le> length (c # s) \<and>
       length (filter (\<lambda>c. c \<noteq> CHR ''-'') (take n (c # s)))
         \<le> length (filter (\<lambda>p. snd p \<noteq> ZeroOrMore) as)" .
    then show ?thesis by simp
  qed
next
  case (6 cs as)
  from "6.prems"(2) have ok: "\<forall>cs q. (cs, q) \<in> set as \<longrightarrow> q = ZeroOrMore \<longrightarrow> cs = ''-''"
    by auto
  from "6.prems"(1) have "n \<in> set (match_atoms as [])" by simp
  from "6.IH" [OF this ok] show ?case by simp
next
  case (7 cs as c s)
  from "7.prems"(2) have ok: "\<forall>cs q. (cs, q) \<in> set as \<longrightarrow> q = ZeroOrMore \<longrightarrow> cs = ''-''"
    by auto
  from "7.prems"(2) have cs: "cs = ''-''" by simp
  from "7.prems"(1) consider
      (take) m where "m \<in> set (match_atoms ((cs, ZeroOrMore) # as) s)" "n = Suc m" "c \<in> set cs"
    | (skip) "n \<in> set (match_atoms as (c # s))"
    by (auto split: if_splits)
  then show ?case
  proof cases
    case take
    from take(3) cs have c: "c = CHR ''-''" by simp
    from "7.IH"(1) [OF take(3) take(1) "7.prems"(2)] show ?thesis
      by (simp add: take(2) c)
  next
    case skip
    from "7.IH"(2) [OF skip ok] have
      "n \<le> length (c # s) \<and>
       length (filter (\<lambda>c. c \<noteq> CHR ''-'') (take n (c # s)))
         \<le> length (filter (\<lambda>p. snd p \<noteq> ZeroOrMore) as)" .
    then show ?thesis by simp
  qed
qed

lemma match_groups_nth:
  "r \<in> set (match_groups gs s) \<Longrightarrow>
   length r = length gs \<and>
   (\<forall>k < length gs. r ! k \<in> set (match_atoms (gs ! k) (drop (sum_list (take k r)) s)))"
proof (induction gs arbitrary: r s)
  case Nil
  then show ?case by simp
next
  case (Cons g gs)
  from Cons.prems obtain n r' where n: "n \<in> set (match_atoms g s)"
    and r': "r' \<in> set (match_groups gs (drop n s))" and r: "r = n # r'"
    by auto
  from Cons.IH [OF r'] n show ?case
    by (auto simp: r nth_Cons add.commute split: nat.splits)
qed

lemma match_partial_from_nth:
  "k < length (match_partial_from i actions p) \<Longrightarrow>
   k < length actions \<and>
   match_partial_from i actions p ! k
     \<in> set (match_atoms (get_nargs_pattern (actions ! k))
              (drop (sum_list (take k (match_partial_from i actions p))) p))"
proof (induction i)
  case 0
  then show ?case by simp
next
  case (Suc i)
  show ?case
  proof (cases "match_groups (map get_nargs_pattern (take (Suc i) actions)) p")
    case Nil
    with Suc show ?thesis by simp
  next
    case (Cons r rs)
    then have r: "match_partial_from (Suc i) actions p = r"
      by simp
    from Cons have "r \<in> set (match_groups (map get_nargs_pattern (take (Suc i) actions)) p)"
      by simp
    from match_groups_nth [OF this] Suc.prems show ?thesis
      unfolding r by (auto simp: min_def split: if_splits)
  qed
qed

lemma slice_remove_separator:
  assumes len: "length q = length args"
    and dash: "\<forall>j < length q. q ! j = CHR ''-'' \<longrightarrow> args ! j = ''--''"
    and a: "length (filter (\<lambda>c. c \<noteq> CHR ''-'') q) \<le> 1"
    and d: "length (filter (\<lambda>c. c = CHR ''-'') q) \<le> 1"
  shows "length (remove1 ''--'' args) \<le> 1"
proof (cases "CHR ''-'' \<in> set q")
  case True
  then obtain j where "j < length q" "q ! j = CHR ''-''"
    by (auto simp: in_set_conv_nth)
  with dash len have "''--'' \<in> set args"
    by (metis nth_mem)
  moreover have "length q \<le> 2"
    using a d sum_length_filter_compl [of "\<lambda>c. c = CHR ''-''" q] by simp
  ultimately show ?thesis
    using len by (simp add: length_remove1)
next
  case False
  then have "filter (\<lambda>c. c \<noteq> CHR ''-'') q = q"
    by (auto simp: filter_id_conv)
  with a len have "length args \<le> 1" by simp
  then show ?thesis
    by (simp add: length_remove1)
qed

lemma filter_slice_le:
  "length (filter P (take n (drop i xs))) \<le> length (filter P xs)"
proof -
  have "filter P xs = filter P (take i xs) @ filter P (drop i xs)"
    by (metis append_take_drop_id filter_append)
  moreover have "filter P (drop i xs)
                   = filter P (take n (drop i xs)) @ filter P (drop n (drop i xs))"
    by (metis append_take_drop_id filter_append)
  ultimately show ?thesis by simp
qed

lemma positional_slice_ok:
  assumes po: "pattern_of arg_strings pattern"
    and k: "k < length (match_arguments_partial pos (drop i pattern))"
  shows "slice_ok arg_strings (pos ! k)
           (take (match_arguments_partial pos (drop i pattern) ! k)
              (drop (i + sum_list (take k (match_arguments_partial pos (drop i pattern))))
                 arg_strings))"
proof -
  define counts where "counts = match_arguments_partial pos (drop i pattern)"
  define n where "n = counts ! k"
  define off where "off = i + sum_list (take k counts)"
  define q where "q = take n (drop off pattern)"
  define args where "args = take n (drop off arg_strings)"
  have sub: "set args \<subseteq> set arg_strings"
    unfolding args_def by (meson set_take_subset set_drop_subset subset_trans)
  have "length (remove1 ''--'' args) \<le> 1"
    if opt: "option_strings (pos ! k) = []" "nargs (pos ! k) = OPTIONAL"
  proof -
    have g: "get_nargs_pattern (pos ! k) = [dash_star, (''A'', ZeroOrOne), dash_star]"
      using opt by (simp add: get_nargs_pattern_def)
    from match_partial_from_nth [of k "length pos" pos "drop i pattern"] k
    have "n \<in> set (match_atoms (get_nargs_pattern (pos ! k)) (drop off pattern))"
      by (simp add: match_arguments_partial_def counts_def n_def off_def add.commute)
    from match_atoms_bound [OF this] have
      b: "n \<le> length (drop off pattern)"
         "length (filter (\<lambda>c. c \<noteq> CHR ''-'') q) \<le> 1"
      by (simp_all add: g dash_star_def q_def)
    from po have len: "length pattern = length arg_strings"
      and dash: "\<forall>j < length pattern. pattern ! j = CHR ''-'' \<longrightarrow> arg_strings ! j = ''--''"
      and one: "length (filter (\<lambda>c. c = CHR ''-'') pattern) \<le> 1"
      by (simp_all add: pattern_of_def)
    have l: "length q = length args"
      by (simp add: q_def args_def len)
    have d: "\<forall>j < length q. q ! j = CHR ''-'' \<longrightarrow> args ! j = ''--''"
      using dash len by (auto simp: q_def args_def)
    have "length (filter (\<lambda>c. c = CHR ''-'') q) \<le> length (filter (\<lambda>c. c = CHR ''-'') pattern)"
      unfolding q_def by (rule filter_slice_le)
    with one have "length (filter (\<lambda>c. c = CHR ''-'') q) \<le> 1"
      by simp
    from slice_remove_separator [OF l d b(2) this] show ?thesis .
  qed
  with sub show ?thesis
    unfolding slice_ok_def args_def n_def off_def counts_def by blast
qed

lemma option_string_actions_opt:
  "map_of (option_string_actions actions) s = Some a \<Longrightarrow> is_optional a"
  by (auto simp: option_string_actions_def is_optional_def dest!: map_of_SomeD)

lemma get_option_tuples_opt:
  "(Some a, os, sep, ea) \<in> set (get_option_tuples actions s) \<Longrightarrow> is_optional a"
  by (auto simp: get_option_tuples_def option_string_actions_def is_optional_def
           split: list.splits if_splits prod.splits)

lemma get_option_tuples_single_opt:
  "get_option_tuples actions s = [(Some a, os, sep, ea)] \<Longrightarrow> is_optional a"
  using get_option_tuples_opt [of a os sep ea actions s] by simp

lemma parse_optional_opt:
  "parse_optional actions s = Inr (Some (Some a, os, sep, ea)) \<Longrightarrow> is_optional a"
  unfolding parse_optional_def
  by (auto split: if_splits option.splits prod.splits list.splits
           dest: option_string_actions_opt get_option_tuples_single_opt)

lemma classify_opt:
  "classify actions args = Inr (indices, pattern) \<Longrightarrow>
   Some (Some a, os, sep, ea) \<in> set indices \<Longrightarrow> is_optional a"
proof (induction args arbitrary: indices pattern)
  case Nil
  then show ?case by simp
next
  case (Cons arg_string rest)
  then show ?case
    by (auto split: if_splits sum.splits prod.splits dest: parse_optional_opt)
qed

lemma classify_indices_opt:
  "classify actions args = Inr (indices, pattern) \<Longrightarrow> indices_opt indices"
  unfolding indices_opt_def using classify_opt by blast

lemma optional_tuples_opt:
  "optional_tuples actions arg_strings pattern i a option_string sep explicit_arg tuples
     = Inr (tuples', ex, n) \<Longrightarrow>
   is_optional a \<Longrightarrow> list_all (\<lambda>t. is_optional (fst t)) tuples \<Longrightarrow>
   list_all (\<lambda>t. is_optional (fst t)) tuples'"
proof (induction "case explicit_arg of None \<Rightarrow> 0 | Some ea \<Rightarrow> Suc (length ea)"
       arbitrary: a option_string sep explicit_arg tuples rule: less_induct)
  case less
  note eq = less.prems(1) [unfolded optional_tuples.simps
      [of actions arg_strings pattern i a option_string sep explicit_arg tuples]]
  show ?case
  proof (cases explicit_arg)
    case None
    with eq less.prems(2,3) show ?thesis
      by (auto split: sum.splits)
  next
    case (Some ea)
    have IH: "\<And>a' os' sep' ea' tuples2.
       optional_tuples actions arg_strings pattern i a' os' sep' ea' tuples2
         = Inr (tuples', ex, n) \<Longrightarrow>
       (case ea' of None \<Rightarrow> 0 | Some e \<Rightarrow> Suc (length e)) < Suc (length ea) \<Longrightarrow>
       is_optional a' \<Longrightarrow> list_all (\<lambda>t. is_optional (fst t)) tuples2 \<Longrightarrow>
       list_all (\<lambda>t. is_optional (fst t)) tuples'"
      using less.hyps by (simp add: Some)
    from eq less.prems(2,3) show ?thesis
      unfolding Some
      by (auto split: sum.splits list.splits if_splits option.splits
               dest!: option_string_actions_opt elim!: IH simp: neq_Nil_conv)
  qed
qed

lemma take_action_inv_on:
  assumes "preserved_on arg_strings actions Inv" "a \<in> set actions" "state_inv actions Inv st"
    and "slice_ok arg_strings a args"
    and "take_action st a args = Inr st'"
  shows "state_inv actions Inv st'"
proof -
  from assms(5) obtain v where v: "get_values a args = Inr v"
    and cls: "action_class a = StoreAction"
    and st': "st' = st\<lparr> seen_actions := a # seen_actions st,
                         namespace := (namespace st)(dest a \<mapsto> v) \<rparr>"
    by (auto simp: take_action_def split: sum.splits action_class.splits)
  from assms(1,2,3,4) v cls have "Inv ((namespace st)(dest a \<mapsto> v)) (a # seen_actions st)"
    unfolding preserved_on_def state_inv_def by blast
  with assms(3) show ?thesis
    by (simp add: st' state_inv_def)
qed

lemma take_actions_inv_on:
  assumes "preserved_on arg_strings actions Inv"
  shows "list_all (\<lambda>t. fst t \<in> set actions) tuples \<Longrightarrow>
         list_all (\<lambda>t. is_optional (fst t)) tuples \<Longrightarrow>
         state_inv actions Inv st \<Longrightarrow>
         take_actions st tuples = Inr st' \<Longrightarrow> state_inv actions Inv st'"
proof (induction tuples arbitrary: st)
  case Nil
  then show ?case by simp
next
  case (Cons t tuples)
  obtain a args where t: "t = (a, args)" by (cases t)
  from Cons.prems(4) obtain st1 where s1: "take_action st a args = Inr st1"
    and rest: "take_actions st1 tuples = Inr st'"
    by (auto simp: t split: sum.splits)
  from Cons.prems(1) have a: "a \<in> set actions" by (simp add: t)
  from Cons.prems(2) have "slice_ok arg_strings a args"
    by (simp add: t slice_ok_def is_optional_def)
  from take_action_inv_on [OF assms a Cons.prems(3) this s1]
  have "state_inv actions Inv st1" .
  with Cons.IH [of st1] Cons.prems(1,2) rest show ?case by simp
qed

lemma take_positionals_inv_on:
  assumes "preserved_on arg_strings actions Inv"
  shows "list_all (\<lambda>t. fst t \<in> set actions) zs \<Longrightarrow>
         (\<forall>k < length zs.
            slice_ok arg_strings (fst (zs ! k))
              (take (snd (zs ! k))
                 (drop (i + sum_list (map snd (take k zs))) arg_strings))) \<Longrightarrow>
         state_inv actions Inv st \<Longrightarrow>
         take_positionals st arg_strings i zs = Inr (st', j) \<Longrightarrow> state_inv actions Inv st'"
proof (induction zs arbitrary: st i)
  case Nil
  then show ?case by simp
next
  case (Cons z zs)
  obtain a n where z: "z = (a, n)" by (cases z)
  from Cons.prems(4) obtain st1 where
    s1: "take_action st a (take n (drop i arg_strings)) = Inr st1"
    and rest: "take_positionals st1 arg_strings (i + n) zs = Inr (st', j)"
    by (auto simp: z split: sum.splits)
  from Cons.prems(1) have a: "a \<in> set actions" by (simp add: z)
  from Cons.prems(2) [rule_format, of 0] have ok: "slice_ok arg_strings a (take n (drop i arg_strings))"
    by (simp add: z)
  from take_action_inv_on [OF assms a Cons.prems(3) ok s1]
  have inv1: "state_inv actions Inv st1" .
  have "\<forall>k < length zs.
          slice_ok arg_strings (fst (zs ! k))
            (take (snd (zs ! k))
               (drop (i + n + sum_list (map snd (take k zs))) arg_strings))"
  proof (intro allI impI)
    fix k assume "k < length zs"
    with Cons.prems(2) [rule_format, of "Suc k"] show
      "slice_ok arg_strings (fst (zs ! k))
         (take (snd (zs ! k)) (drop (i + n + sum_list (map snd (take k zs))) arg_strings))"
      by (simp add: z add.assoc)
  qed
  with Cons.IH [of "i + n" st1] Cons.prems(1) inv1 rest show ?case by simp
qed

lemma consume_positionals_inv_on:
  assumes "preserved_on arg_strings actions Inv" "state_inv actions Inv st"
    and po: "pattern_of arg_strings pattern"
    and "consume_positionals arg_strings pattern st i = Inr (st', j)"
  shows "state_inv actions Inv st'"
proof -
  define counts where "counts = match_arguments_partial (positionals st) (drop i pattern)"
  define zs where "zs = zip (positionals st) counts"
  from assms(4) obtain st1 where
    tp: "take_positionals st arg_strings i zs = Inr (st1, j)"
    and st': "st' = st1\<lparr> positionals := drop (length counts) (positionals st1) \<rparr>"
    by (auto simp: consume_positionals_def counts_def zs_def Let_def split: sum.splits)
  have mem: "list_all (\<lambda>t. fst t \<in> set actions) zs"
    using assms(2) by (auto simp: state_inv_def list_all_iff zs_def dest: set_zip_leftD)
  have ok: "\<forall>k < length zs.
          slice_ok arg_strings (fst (zs ! k))
            (take (snd (zs ! k))
               (drop (i + sum_list (map snd (take k zs))) arg_strings))"
  proof (intro allI impI)
    fix k assume k: "k < length zs"
    then have kc: "k < length counts" and kp: "k < length (positionals st)"
      by (simp_all add: zs_def)
    have "map snd (take k zs) = take k counts"
      using kp kc by (simp add: zs_def take_zip map_snd_zip_take min_def)
    moreover have "fst (zs ! k) = positionals st ! k" "snd (zs ! k) = counts ! k"
      using kc kp by (simp_all add: zs_def)
    ultimately show "slice_ok arg_strings (fst (zs ! k))
            (take (snd (zs ! k))
               (drop (i + sum_list (map snd (take k zs))) arg_strings))"
      using positional_slice_ok [OF po kc [unfolded counts_def]]
      by (simp add: counts_def)
  qed
  from take_positionals_inv_on [OF assms(1) mem ok assms(2) tp]
  have "state_inv actions Inv st1" .
  then show ?thesis
    using set_drop_subset [of "length counts" "positionals st1"]
    by (auto simp: st' state_inv_def)
qed

lemma consume_optional_inv_on:
  assumes "preserved_on arg_strings actions Inv" "state_inv actions Inv st"
    and "indices_in actions indices" and "indices_opt indices"
    and "consume_optional actions arg_strings indices pattern st i = Inr (st', n)"
  shows "state_inv actions Inv st'"
proof -
  from assms(5) obtain oa os sep ea where
    at: "option_at indices i = Some (oa, os, sep, ea)"
    by (auto simp: consume_optional_def split: option.splits)
  show ?thesis
  proof (cases oa)
    case None
    with assms(5) assms(2) at show ?thesis
      by (auto simp: consume_optional_def state_inv_def)
  next
    case (Some a)
    from option_at_mem [OF at] assms(3) have a: "a \<in> set actions"
      unfolding indices_in_def Some by blast
    from option_at_mem [OF at] assms(4) have o: "is_optional a"
      unfolding indices_opt_def Some by blast
    from assms(5) at Some obtain tuples ex where
      ot: "optional_tuples actions arg_strings pattern i a os sep ea [] = Inr (tuples, ex, n)"
      and ta: "take_actions (st\<lparr> extras := extras st @ ex \<rparr>) tuples = Inr st'"
      by (auto simp: consume_optional_def split: sum.splits)
    from optional_tuples_mem [OF ot a] have m: "list_all (\<lambda>t. fst t \<in> set actions) tuples"
      by simp
    from optional_tuples_opt [OF ot o] have
      p: "list_all (\<lambda>t. is_optional (fst t)) tuples"
      by simp
    from assms(2) have "state_inv actions Inv (st\<lparr> extras := extras st @ ex \<rparr>)"
      by (simp add: state_inv_def)
    from take_actions_inv_on [OF assms(1) m p this ta] show ?thesis .
  qed
qed

lemma loop_body_inv_on:
  assumes "preserved_on arg_strings actions Inv" "indices_in actions indices"
    and "indices_opt indices" and po: "pattern_of arg_strings pattern"
    and "state_inv actions Inv st"
    and "loop_body actions arg_strings indices pattern st i nxt = Inr (st', j)"
  shows "state_inv actions Inv st'"
proof (cases "i \<noteq> nxt")
  case False
  with assms(6) obtain n where
    "consume_optional actions arg_strings indices pattern st i = Inr (st', n)"
    by (auto simp: loop_body_def split: sum.splits)
  from consume_optional_inv_on [OF assms(1) assms(5) assms(2) assms(3) this] show ?thesis .
next
  case True
  with assms(6) obtain st1 pend where
    cp: "consume_positionals arg_strings pattern st i = Inr (st1, pend)"
    by (auto simp: loop_body_def split: sum.splits)
  from consume_positionals_inv_on [OF assms(1) assms(5) po cp]
  have inv1: "state_inv actions Inv st1" .
  show ?thesis
  proof (cases "pend > i")
    case True
    with assms(6) cp \<open>i \<noteq> nxt\<close> inv1 show ?thesis
      by (simp add: loop_body_def)
  next
    case False
    define st1' where
      "st1' = st1\<lparr> extras := extras st1 @ take (nxt - i) (drop i arg_strings) \<rparr>"
    from False assms(6) cp \<open>i \<noteq> nxt\<close> obtain n where
      co: "consume_optional actions arg_strings indices pattern st1' nxt = Inr (st', n)"
      by (auto simp: loop_body_def st1'_def split: sum.splits)
    from inv1 have "state_inv actions Inv st1'"
      by (simp add: state_inv_def st1'_def)
    from consume_optional_inv_on [OF assms(1) this assms(2) assms(3) co] show ?thesis .
  qed
qed

lemma consume_loop_inv_on:
  assumes "preserved_on arg_strings actions Inv" "indices_in actions indices"
    and "indices_opt indices" and "pattern_of arg_strings pattern"
  shows "state_inv actions Inv st \<Longrightarrow>
         consume_loop actions arg_strings indices pattern st i = Inr (st', j) \<Longrightarrow>
         state_inv actions Inv st'"
  using assms
proof (induction actions arg_strings indices pattern st i rule: consume_loop.induct)
  case (1 actions arg_strings indices pattern st start_index)
  show ?case
  proof (cases "filter (\<lambda>i. start_index \<le> i) (option_indices_from 0 indices)")
    case Nil
    with "1.prems"(1,2) show ?thesis
      by (simp add: consume_loop.simps [of actions arg_strings indices pattern st start_index])
  next
    case (Cons k ks)
    with "1.prems"(2) obtain st1 i1 where
      body: "loop_body actions arg_strings indices pattern st start_index (fold min ks k)
               = Inr (st1, i1)"
      and rest: "consume_loop actions arg_strings indices pattern st1 i1 = Inr (st', j)"
      by (auto simp: consume_loop.simps [of actions arg_strings indices pattern st start_index]
               split: sum.splits)
    from loop_body_inv_on [OF "1.prems"(3,4,5,6) "1.prems"(1) body]
    have "state_inv actions Inv st1" .
    from "1.IH" [OF Cons body refl this rest "1.prems"(3,4,5,6)] show ?thesis .
  qed
qed

lemma parse_known_args_inv_on:
  assumes "preserved_on args actions Inv" "Inv (initial_namespace actions Map.empty) []"
    and "parse_known_args actions args = Inr (ns, argv)"
  shows "\<exists>seen. Inv ns seen"
proof -
  define st0 where "st0 = \<lparr> namespace = initial_namespace actions Map.empty, seen_actions = [],
                    positionals = get_positional_actions actions, extras = [] \<rparr>"
  from assms(3) obtain indices pattern st i st' j where
    cl: "classify actions args = Inr (indices, pattern)"
    and lp: "consume_loop actions args indices pattern st0 0 = Inr (st, i)"
    and cp: "consume_positionals args pattern st i = Inr (st', j)"
    and ns: "ns = namespace st'"
    by (auto simp: parse_known_args_def st0_def Let_def split: sum.splits if_splits)
  have "state_inv actions Inv st0"
    using assms(2) by (auto simp: state_inv_def st0_def get_positional_actions_def)
  from consume_loop_inv_on [OF assms(1) classify_indices_in [OF cl] classify_indices_opt [OF cl]
         classify_pattern_of [OF cl] this lp]
  have "state_inv actions Inv st" .
  from consume_positionals_inv_on [OF assms(1) this classify_pattern_of [OF cl] cp]
  have "state_inv actions Inv st'" .
  then have "Inv ns (seen_actions st')"
    by (simp add: state_inv_def ns)
  then show ?thesis by blast
qed


section \<open>The plot type that is parsed and the kind that is plotted\<close>

lemma get_values_optional_positional:
  assumes gv: "get_values a args = Inr v" and pos: "option_strings a = []"
    and opt: "nargs a = OPTIONAL" and len: "length (remove1 ''--'' args) \<le> 1"
  shows "v = default_value a \<or> (\<exists>s \<in> set args. v = PStr s)"
proof -
  define xs where "xs = remove1 ''--'' args"
  have sub: "set xs \<subseteq> set args"
    unfolding xs_def by (rule set_remove1_subset)
  note g = gv [unfolded get_values_def Let_def pos if_True, folded xs_def]
  show ?thesis
  proof (cases xs)
    case Nil
    with g opt show ?thesis
      by (auto split: pyval.splits sum.splits)
  next
    case (Cons x ys)
    with len have ys: "ys = []" by (simp add: xs_def)
    from sub Cons have "x \<in> set args" by auto
    with g opt Cons ys show ?thesis
      by (auto split: sum.splits)
  qed
qed

lemma plot_type_from_preserved:
  "preserved_on tokens (show_biv_dist_parser nums cols) (plot_type_from tokens)"
  unfolding preserved_on_def
proof (intro allI impI)
  fix ns seen a args v
  assume a: "a \<in> set (show_biv_dist_parser nums cols)"
    and ok: "plot_type_from tokens ns seen"
    and sl: "slice_ok tokens a args"
    and gv: "get_values a args = Inr v" and cls: "action_class a = StoreAction"
  from a cls consider
      (pt) "a = add_positional ''plot_type'' OPTIONAL (PStr ''heatmap'')
                 (Some [''heatmap'', ''gaussian''])"
    | (other) "dest a \<noteq> ''plot_type''"
    by (auto simp: show_biv_dist_parser_def help_action_def add_positional_def
          add_optional_def)
  then show "plot_type_from tokens (ns(dest a \<mapsto> v)) (a # seen)"
  proof cases
    case pt
    then have f: "option_strings a = []" "nargs a = OPTIONAL" "dest a = ''plot_type''"
      "default_value a = PStr ''heatmap''"
      by (simp_all add: add_positional_def)
    from sl f have "set args \<subseteq> set tokens" "length (remove1 ''--'' args) \<le> 1"
      by (simp_all add: slice_ok_def)
    with get_values_optional_positional [OF gv f(1,2)] f(3,4) show ?thesis
      by (auto simp: plot_type_from_def)
  next
    case other
    with ok show ?thesis
      by (simp add: plot_type_from_def)
  qed
qed

lemma show_biv_dist_parser_plot_type:
  assumes "parse_args (show_biv_dist_parser nums cols) tokens = Inr ns"
  shows "ns ''plot_type'' = Some (PStr ''heatmap'') \<or>
         (''gaussian'' \<in> set tokens \<and> ns ''plot_type'' = Some (PStr ''gaussian''))"
proof -
  from assms have pk: "parse_known_args (show_biv_dist_parser nums cols) tokens = Inr (ns, [])"
    by (auto simp: parse_args_def split: sum.splits if_splits)
  have "plot_type_from tokens
          (initial_namespace (show_biv_dist_parser nums cols) Map.empty) []"
    by (simp add: plot_type_from_def show_biv_dist_parser_def help_action_def
          add_positional_def add_optional_def)
  from parse_known_args_inv_on [OF plot_type_from_preserved this pk]
  have "ns ''plot_type'' = Some (PStr ''heatmap'') \<or>
        (\<exists>s \<in> set tokens. ns ''plot_type'' = Some (PStr s))"
    by (simp add: plot_type_from_def)
  with show_biv_dist_parser_names_ok [OF assms] show ?thesis
    by auto
qed

text \<open>
  C4. In the bivariate handler the figure that is saved to the output file has kind
  \<open>kde\<close> when the parsed plot type is \<open>gaussian\<close> and kind \<open>hist\<close> when it is
  \<open>heatmap\<close>, with and without categoricals. The handler does return normally and
  save that figure when the output file name is a string that passes the check, the
  dataset is well formed, the two variables are columns of it and, for two or more
  categoricals, the listed columns hold strings. In every token list the parser
  accepts the plot type is \<open>heatmap\<close> or \<open>gaussian\<close>, and it is \<open>heatmap\<close> unless
  \<open>gaussian\<close> is one of the tokens; a token list made of two variables only is
  accepted, with the plot type \<open>heatmap\<close>. A token list in which the parser reads any
  other string as the plot type is rejected by the parser with the invalid-choice
  usage error, and nothing is plotted.
\<close>

theorem plot_type_selects_kind:
  "(parse_args (show_biv_dist_parser (get_numericals (heap w data))
                  (columns_values (heap w data))) args = Inr ns \<and>
    check_valid_png (attr ns ''outfile'') = Inr rc \<and> rc \<noteq> - 1 \<and>
    show_biv_dist get_numericals check_valid_png w data args = (Inr (), w') \<longrightarrow>
    (\<exists>f plot. attr ns ''outfile'' = PStr f \<and> files w' f = Some plot \<and>
       (attr_str ns ''plot_type'' = ''gaussian'' \<longrightarrow> fig_kind plot = ''kde'') \<and>
       (attr_str ns ''plot_type'' = ''heatmap'' \<longrightarrow> fig_kind plot = ''hist''))) \<and>
   (parse_args (show_biv_dist_parser (get_numericals (heap w data))
                  (columns_values (heap w data))) args = Inr ns \<and>
    check_valid_png (attr ns ''outfile'') = Inr rc \<and> rc \<noteq> - 1 \<and>
    attr ns ''outfile'' = PStr f \<and>
    wf_frame (heap w data) \<and> data < next_ref w \<and>
    get_column (heap w data) (attr_str ns ''v1'') \<noteq> None \<and>
    get_column (heap w data) (attr_str ns ''v2'') \<noteq> None \<and>
    (2 \<le> length (attr_list ns ''categoricals'') \<longrightarrow>
       (\<forall>c \<in> set (attr_list ns ''categoricals'').
          \<forall>cs. get_column (heap w data) c = Some cs \<longrightarrow>
            (\<forall>x \<in> set cs. cell_string x \<noteq> None))) \<longrightarrow>
    (\<exists>w' plot. show_biv_dist get_numericals check_valid_png w data args = (Inr (), w') \<and>
       files w' f = Some plot \<and>
       fig_kind plot
         = (if attr_str ns ''plot_type'' = ''gaussian'' then ''kde'' else ''hist''))) \<and>
   (parse_optional (show_biv_dist_parser nums cols) a = Inr None \<and> a \<in> set nums \<and>
    parse_optional (show_biv_dist_parser nums cols) b = Inr None \<and> b \<in> set nums \<longrightarrow>
    (\<exists>ns'. parse_args (show_biv_dist_parser nums cols) [a, b] = Inr ns' \<and>
           ns' ''plot_type'' = Some (PStr ''heatmap''))) \<and>
   (parse_args (show_biv_dist_parser nums cols) tokens = Inr ns \<longrightarrow>
    (ns ''plot_type'' = Some (PStr ''heatmap'') \<or>
     ns ''plot_type'' = Some (PStr ''gaussian'')) \<and>
    (''gaussian'' \<notin> set tokens \<longrightarrow> ns ''plot_type'' = Some (PStr ''heatmap''))) \<and>
   (parse_args (without_choices (show_biv_dist_parser (get_numericals (heap w data))
                                   (columns_values (heap w data)))) args = Inr ns \<and>
    ns ''plot_type'' = Some (PStr t) \<and> t \<noteq> ''heatmap'' \<and> t \<noteq> ''gaussian'' \<longrightarrow>
    (\<exists>d v. parse_args (show_biv_dist_parser (get_numericals (heap w data))
                         (columns_values (heap w data))) args
             = Inl (UsageError (InvalidChoice d v)) \<and>
           show_biv_dist get_numericals check_valid_png w data args
             = (Inl (UsageError (InvalidChoice d v)), w)))"
proof (intro conjI impI)
  assume h: "parse_args (show_biv_dist_parser (get_numericals (heap w data))
                  (columns_values (heap w data))) args = Inr ns \<and>
    check_valid_png (attr ns ''outfile'') = Inr rc \<and> rc \<noteq> - 1 \<and>
    show_biv_dist get_numericals check_valid_png w data args = (Inr (), w')"
  from show_biv_dist_saved_kind [of get_numericals w data args ns check_valid_png rc w'] h
  obtain g plot where "attr ns ''outfile'' = PStr g" "files w' g = Some plot"
    "fig_kind plot
       = (if attr_str ns ''plot_type'' = ''gaussian'' then ''kde'' else ''hist'')"
    by blast
  then show "\<exists>f plot. attr ns ''outfile'' = PStr f \<and> files w' f = Some plot \<and>
       (attr_str ns ''plot_type'' = ''gaussian'' \<longrightarrow> fig_kind plot = ''kde'') \<and>
       (attr_str ns ''plot_type'' = ''heatmap'' \<longrightarrow> fig_kind plot = ''hist'')"
    by (intro exI [of _ g] exI [of _ plot]) simp
next
  assume h: "parse_args (show_biv_dist_parser (get_numericals (heap w data))
                  (columns_values (heap w data))) args = Inr ns \<and>
    check_valid_png (attr ns ''outfile'') = Inr rc \<and> rc \<noteq> - 1 \<and>
    attr ns ''outfile'' = PStr f \<and>
    wf_frame (heap w data) \<and> data < next_ref w \<and>
    get_column (heap w data) (attr_str ns ''v1'') \<noteq> None \<and>
    get_column (heap w data) (attr_str ns ''v2'') \<noteq> None \<and>
    (2 \<le> length (attr_list ns ''categoricals'') \<longrightarrow>
       (\<forall>c \<in> set (attr_list ns ''categoricals'').
          \<forall>cs. get_column (heap w data) c = Some cs \<longrightarrow>
            (\<forall>x \<in> set cs. cell_string x \<noteq> None)))"
  from show_biv_dist_returns [of get_numericals w data args ns check_valid_png rc f] h
  obtain wb where r: "show_biv_dist get_numericals check_valid_png w data args = (Inr (), wb)"
    by blast
  from show_biv_dist_saved_kind [of get_numericals w data args ns check_valid_png rc wb] h r
  obtain g plot where "attr ns ''outfile'' = PStr g" "files wb g = Some plot"
    "fig_kind plot
       = (if attr_str ns ''plot_type'' = ''gaussian'' then ''kde'' else ''hist'')"
    by blast
  with h r show "\<exists>w' plot.
       show_biv_dist get_numericals check_valid_png w data args = (Inr (), w') \<and>
       files w' f = Some plot \<and>
       fig_kind plot
         = (if attr_str ns ''plot_type'' = ''gaussian'' then ''kde'' else ''hist'')"
    by (intro exI [of _ wb] exI [of _ plot]) simp
next
  assume "parse_optional (show_biv_dist_parser nums cols) a = Inr None \<and> a \<in> set nums \<and>
    parse_optional (show_biv_dist_parser nums cols) b = Inr None \<and> b \<in> set nums"
  with show_biv_dist_parser_pair [of nums cols a b]
  show "\<exists>ns'. parse_args (show_biv_dist_parser nums cols) [a, b] = Inr ns' \<and>
           ns' ''plot_type'' = Some (PStr ''heatmap'')"
    by blast
next
  assume "parse_args (show_biv_dist_parser nums cols) tokens = Inr ns"
  from show_biv_dist_parser_plot_type [OF this]
  show "ns ''plot_type'' = Some (PStr ''heatmap'') \<or>
        ns ''plot_type'' = Some (PStr ''gaussian'')"
    by blast
next
  assume "parse_args (show_biv_dist_parser nums cols) tokens = Inr ns"
    and "''gaussian'' \<notin> set tokens"
  with show_biv_dist_parser_plot_type [of nums cols tokens ns]
  show "ns ''plot_type'' = Some (PStr ''heatmap'')"
    by blast
next
  let ?P = "show_biv_dist_parser (get_numericals (heap w data)) (columns_values (heap w data))"
  assume h: "parse_args (without_choices ?P) args = Inr ns \<and>
    ns ''plot_type'' = Some (PStr t) \<and> t \<noteq> ''heatmap'' \<and> t \<noteq> ''gaussian''"
  from parse_args_sim [OF show_biv_dist_parser_distinct] h
  have "parse_args ?P args = Inr ns \<or> rejected (parse_args ?P args)"
    by blast
  moreover have "parse_args ?P args \<noteq> Inr ns"
    using show_biv_dist_parser_names_ok [of _ _ args ns] h by fastforce
  ultimately obtain d v where "parse_args ?P args = Inl (UsageError (InvalidChoice d v))"
    unfolding rejected_def by blast
  then show "\<exists>d v. parse_args ?P args = Inl (UsageError (InvalidChoice d v)) \<and>
           show_biv_dist get_numericals check_valid_png w data args
             = (Inl (UsageError (InvalidChoice d v)), w)"
    by (simp add: show_biv_dist_def)
qed

theorem plot_type_selects_kind_witness:
  "(\<exists>w' plot. show_biv_dist numeric_columns png_only example_world 0
                [''age'', ''height'', ''gaussian'', ''-c'', ''sex'', ''city''] = (Inr (), w') \<and>
              files w' ''output.png'' = Some plot \<and> fig_kind plot = ''kde'') \<and>
   (\<exists>w' plot. show_biv_dist numeric_columns png_only example_world 0
                [''age'', ''height'', ''-c'', ''sex'', ''-o'', ''h.png''] = (Inr (), w') \<and>
              files w' ''h.png'' = Some plot \<and> fig_kind plot = ''hist'') \<and>
   (\<exists>plot. files (snd (show_biv_dist numeric_columns png_only example_world 0
                          [''age'', ''height'', ''gaussian''])) ''output.png'' = Some plot \<and>
           fig_kind plot = ''kde'') \<and>
   (\<exists>ns'. parse_args (show_biv_dist_parser [''age'', ''height'']
                        [''age'', ''height'', ''sex'', ''city'']) [''age'', ''height'']
            = Inr ns' \<and>
          ns' ''plot_type'' = Some (PStr ''heatmap'')) \<and>
   (\<exists>ns'. parse_args (show_biv_dist_parser [''age'', ''height'']
                        [''age'', ''height'', ''sex'', ''city''])
                 [''age'', ''-o'', ''g.png'', ''height'', ''-c'', ''sex''] = Inr ns' \<and>
          ns' ''plot_type'' = Some (PStr ''heatmap'')) \<and>
   (\<exists>d v. show_biv_dist numeric_columns png_only example_world 0
            [''age'', ''height'', ''scatter'']
          = (Inl (UsageError (InvalidChoice d v)), example_world))"
proof -
  have wf: "wf_frame (heap example_world 0)" by code_simp
  have al: "0 < next_ref example_world" by (simp add: example_world_def)
  have ne: "(0::int) \<noteq> - 1" by simp
  have cols: "get_column (heap example_world 0) ''age'' \<noteq> None"
    "get_column (heap example_world 0) ''height'' \<noteq> None"
    by (simp_all add: example_world_def example_frame_def get_column_def)
  have "case parse_args (show_biv_dist_parser (numeric_columns (heap example_world 0))
                           (columns_values (heap example_world 0)))
               [''age'', ''height'', ''gaussian'', ''-c'', ''sex'', ''city''] of
          Inl e \<Rightarrow> False
        | Inr ns \<Rightarrow> png_only (attr ns ''outfile'') = Inr 0
                    \<and> attr ns ''outfile'' = PStr ''output.png''
                    \<and> attr_str ns ''plot_type'' = ''gaussian''
                    \<and> attr_str ns ''v1'' = ''age'' \<and> attr_str ns ''v2'' = ''height''
                    \<and> attr_list ns ''categoricals'' = [''sex'', ''city'']"
    by code_simp
  then obtain ns4 where p4:
    "parse_args (show_biv_dist_parser (numeric_columns (heap example_world 0))
                   (columns_values (heap example_world 0)))
       [''age'', ''height'', ''gaussian'', ''-c'', ''sex'', ''city''] = Inr ns4"
    "png_only (attr ns4 ''outfile'') = Inr 0"
    "attr ns4 ''outfile'' = PStr ''output.png''"
    "attr_str ns4 ''plot_type'' = ''gaussian''"
    "attr_str ns4 ''v1'' = ''age''" "attr_str ns4 ''v2'' = ''height''"
    "attr_list ns4 ''categoricals'' = [''sex'', ''city'']"
    by (auto split: sum.splits)
  have s4: "2 \<le> length (attr_list ns4 ''categoricals'') \<longrightarrow>
       (\<forall>c \<in> set (attr_list ns4 ''categoricals'').
          \<forall>cs. get_column (heap example_world 0) c = Some cs \<longrightarrow>
            (\<forall>x \<in> set cs. cell_string x \<noteq> None))"
    unfolding p4(7)
    by (simp add: example_world_def example_frame_def get_column_def cell_string_def)
  from plot_type_selects_kind
         [where get_numericals = numeric_columns and w = example_world and data = 0
            and args = "[''age'', ''height'', ''gaussian'', ''-c'', ''sex'', ''city'']"
            and ns = ns4 and check_valid_png = png_only and rc = 0 and f = "''output.png''",
          THEN conjunct2, THEN conjunct1]
       p4(1,2,3) wf al ne cols [folded p4(5) p4(6)] s4
  have c4: "\<exists>w' plot. show_biv_dist numeric_columns png_only example_world 0
                [''age'', ''height'', ''gaussian'', ''-c'', ''sex'', ''city''] = (Inr (), w') \<and>
              files w' ''output.png'' = Some plot \<and> fig_kind plot = ''kde''"
    unfolding p4(4) by simp
  have "case parse_args (show_biv_dist_parser (numeric_columns (heap example_world 0))
                           (columns_values (heap example_world 0)))
               [''age'', ''height'', ''-c'', ''sex'', ''-o'', ''h.png''] of
          Inl e \<Rightarrow> False
        | Inr ns \<Rightarrow> png_only (attr ns ''outfile'') = Inr 0
                    \<and> attr ns ''outfile'' = PStr ''h.png''
                    \<and> attr_str ns ''plot_type'' = ''heatmap''
                    \<and> attr_str ns ''v1'' = ''age'' \<and> attr_str ns ''v2'' = ''height''
                    \<and> attr_list ns ''categoricals'' = [''sex'']"
    by code_simp
  then obtain ns5 where p5:
    "parse_args (show_biv_dist_parser (numeric_columns (heap example_world 0))
                   (columns_values (heap example_world 0)))
       [''age'', ''height'', ''-c'', ''sex'', ''-o'', ''h.png''] = Inr ns5"
    "png_only (attr ns5 ''outfile'') = Inr 0"
    "attr ns5 ''outfile'' = PStr ''h.png''"
    "attr_str ns5 ''plot_type'' = ''heatmap''"
    "attr_str ns5 ''v1'' = ''age''" "attr_str ns5 ''v2'' = ''height''"
    "attr_list ns5 ''categoricals'' = [''sex'']"
    by (auto split: sum.splits)
  have s5: "2 \<le> length (attr_list ns5 ''categoricals'') \<longrightarrow>
       (\<forall>c \<in> set (attr_list ns5 ''categoricals'').
          \<forall>cs. get_column (heap example_world 0) c = Some cs \<longrightarrow>
            (\<forall>x \<in> set cs. cell_string x \<noteq> None))"
    unfolding p5(7) by simp
  from plot_type_selects_kind
         [where get_numericals = numeric_columns and w = example_world and data = 0
            and args = "[''age'', ''height'', ''-c'', ''sex'', ''-o'', ''h.png'']"
            and ns = ns5 and check_valid_png = png_only and rc = 0 and f = "''h.png''",
          THEN conjunct2, THEN conjunct1]
       p5(1,2,3) wf al ne cols [folded p5(5) p5(6)] s5
  have c5: "\<exists>w' plot. show_biv_dist numeric_columns png_only example_world 0
                [''age'', ''height'', ''-c'', ''sex'', ''-o'', ''h.png''] = (Inr (), w') \<and>
              files w' ''h.png'' = Some plot \<and> fig_kind plot = ''hist''"
    unfolding p5(4) by simp
  define w2 where "w2 = snd (show_biv_dist numeric_columns png_only example_world 0
                                [''age'', ''height'', ''gaussian''])"
  have "case parse_args (show_biv_dist_parser (numeric_columns (heap example_world 0))
                           (columns_values (heap example_world 0)))
               [''age'', ''height'', ''gaussian''] of
          Inl e \<Rightarrow> False
        | Inr ns \<Rightarrow> png_only (attr ns ''outfile'') = Inr 0
                    \<and> attr ns ''outfile'' = PStr ''output.png''
                    \<and> attr_str ns ''plot_type'' = ''gaussian''"
    by code_simp
  then obtain ns1 where p1:
    "parse_args (show_biv_dist_parser (numeric_columns (heap example_world 0))
                   (columns_values (heap example_world 0)))
       [''age'', ''height'', ''gaussian''] = Inr ns1"
    "png_only (attr ns1 ''outfile'') = Inr 0"
    "attr ns1 ''outfile'' = PStr ''output.png''"
    "attr_str ns1 ''plot_type'' = ''gaussian''"
    by (auto split: sum.splits)
  have "fst (show_biv_dist numeric_columns png_only example_world 0
               [''age'', ''height'', ''gaussian'']) = Inr ()"
    by code_simp
  then have r1: "show_biv_dist numeric_columns png_only example_world 0
                   [''age'', ''height'', ''gaussian''] = (Inr (), w2)"
    unfolding w2_def by (metis prod.collapse)
  from plot_type_selects_kind
         [where get_numericals = numeric_columns and w = example_world and data = 0
            and args = "[''age'', ''height'', ''gaussian'']" and ns = ns1
            and check_valid_png = png_only and rc = 0 and w' = w2, THEN conjunct1]
       p1(1,2,4) r1 ne
  obtain g plot where "attr ns1 ''outfile'' = PStr g" "files w2 g = Some plot"
    "fig_kind plot = ''kde''"
    by blast
  with p1(3) have c1: "\<exists>plot. files w2 ''output.png'' = Some plot \<and> fig_kind plot = ''kde''"
    by auto
  have po: "parse_optional (show_biv_dist_parser [''age'', ''height'']
                     [''age'', ''height'', ''sex'', ''city'']) ''age'' = Inr None"
    "parse_optional (show_biv_dist_parser [''age'', ''height'']
                     [''age'', ''height'', ''sex'', ''city'']) ''height'' = Inr None"
    by (rule parse_optional_positional, simp)+
  from plot_type_selects_kind
         [where nums = "[''age'', ''height'']" and cols = "[''age'', ''height'', ''sex'', ''city'']"
            and a = "''age''" and b = "''height''",
          THEN conjunct2, THEN conjunct2, THEN conjunct1]
       po
  have c2: "\<exists>ns'. parse_args (show_biv_dist_parser [''age'', ''height'']
                        [''age'', ''height'', ''sex'', ''city'']) [''age'', ''height'']
            = Inr ns' \<and>
          ns' ''plot_type'' = Some (PStr ''heatmap'')"
    by simp
  have "case parse_args (without_choices (show_biv_dist_parser
                (numeric_columns (heap example_world 0))
                (columns_values (heap example_world 0))))
               [''age'', ''height'', ''scatter''] of
          Inl e \<Rightarrow> False
        | Inr ns \<Rightarrow> ns ''plot_type'' = Some (PStr ''scatter'')"
    by code_simp
  then obtain ns3 where p3:
    "parse_args (without_choices (show_biv_dist_parser
                (numeric_columns (heap example_world 0))
                (columns_values (heap example_world 0))))
       [''age'', ''height'', ''scatter''] = Inr ns3"
    "ns3 ''plot_type'' = Some (PStr ''scatter'')"
    by (auto split: sum.splits)
  have ne3: "''scatter'' \<noteq> ''heatmap''" "''scatter'' \<noteq> ''gaussian''" by simp_all
  from plot_type_selects_kind
         [where get_numericals = numeric_columns and w = example_world and data = 0
            and args = "[''age'', ''height'', ''scatter'']" and ns = ns3
            and check_valid_png = png_only and t = "''scatter''",
          THEN conjunct2, THEN conjunct2, THEN conjunct2, THEN conjunct2]
       p3 ne3
  have c3: "\<exists>d v. show_biv_dist numeric_columns png_only example_world 0
            [''age'', ''height'', ''scatter'']
          = (Inl (UsageError (InvalidChoice d v)), example_world)"
    by blast
  have "case parse_args (show_biv_dist_parser [''age'', ''height'']
                           [''age'', ''height'', ''sex'', ''city''])
               [''age'', ''-o'', ''g.png'', ''height'', ''-c'', ''sex''] of
          Inl e \<Rightarrow> False
        | Inr ns \<Rightarrow> True"
    by code_simp
  then obtain ns6 where p6:
    "parse_args (show_biv_dist_parser [''age'', ''height'']
                   [''age'', ''height'', ''sex'', ''city''])
       [''age'', ''-o'', ''g.png'', ''height'', ''-c'', ''sex''] = Inr ns6"
    by (auto split: sum.splits)
  have n6: "''gaussian'' \<notin> set [''age'', ''-o'', ''g.png'', ''height'', ''-c'', ''sex'']"
    by simp
  from plot_type_selects_kind
         [where nums = "[''age'', ''height'']" and cols = "[''age'', ''height'', ''sex'', ''city'']"
            and tokens = "[''age'', ''-o'', ''g.png'', ''height'', ''-c'', ''sex'']"
            and ns = ns6,
          THEN conjunct2, THEN conjunct2, THEN conjunct2, THEN conjunct1]
       p6 n6
  have "ns6 ''plot_type'' = Some (PStr ''heatmap'')"
    by blast
  with p6 have c6: "\<exists>ns'. parse_args (show_biv_dist_parser [''age'', ''height'']
                        [''age'', ''height'', ''sex'', ''city''])
                 [''age'', ''-o'', ''g.png'', ''height'', ''-c'', ''sex''] = Inr ns' \<and>
          ns' ''plot_type'' = Some (PStr ''heatmap'')"
    by blast
  from c4 c5 c1 c2 c6 c3 show ?thesis
    unfolding w2_def by blast
qed


section \<open>Faceting on the composite labels\<close>








end
